theory Spec2Isabelle
  imports Main
begin

section \<open>Exceptions and the outcome of a call\<close>

text \<open>
  The body of a coroutine may throw any exception object; the facade itself throws
  \<^verbatim>\<open>Exc(errmsg)\<close>, an \<^verbatim>\<open>Upp::Exc\<close> carrying a text. \<open>Exc\<close> is that class, \<open>Foreign\<close> stands
  for an exception object of any other type.
\<close>

datatype exception = Exc string | Foreign nat

definition errmsg :: string where
  "errmsg = ''Generator exhausted''"

text \<open>
  A member function returns a value, leaves by an exception, stops at a failed
  \<^verbatim>\<open>ASSERT\<close> (the debug build's panic), or runs into undefined behaviour of the language
  (a null or dangling handle used, a coroutine resumed at its final suspend point).
  \<^verbatim>\<open>ASSERT\<close>, \<^verbatim>\<open>pick\<close> and \<^verbatim>\<open>Exc\<close> are those of U++ Core, which is outside these sources:
  \<^verbatim>\<open>ASSERT\<close> is taken as the check that stops the program when its condition is false,
  \<^verbatim>\<open>pick\<close> as \<^verbatim>\<open>std::move\<close>.
\<close>

datatype 'a result = Returns 'a | Throws exception | AssertFailed | UndefinedBehaviour

section \<open>The promise and the coroutine frame\<close>

text \<open>
  \<^verbatim>\<open>ReturnValue<U>\<close> and \<^verbatim>\<open>CurrentValue<U>\<close> hold \<^verbatim>\<open>std::exception_ptr exc\<close> (null is \<open>None\<close>)
  and \<^verbatim>\<open>U value {}\<close>, here \<open>val\<close>; \<^verbatim>\<open>VoidValue\<close> is the instance with \<open>unit\<close> for the value.
\<close>

record 'v promise_type =
  exc :: "exception option"
  val :: 'v

text \<open>
  The frame that a \<^verbatim>\<open>std::coroutine_handle\<close> points to: the promise, the suspended
  body (its resume point and locals, \<open>point\<close>), and whether the coroutine is suspended
  at its final suspend point, which is what \<^verbatim>\<open>co.done()\<close> reads.
\<close>

record ('v, 's) frame =
  promise :: "'v promise_type"
  point :: 's
  finished :: bool

text \<open>
  What one run of the body does from a resume point, up to the next suspension.
  A Routine body (promise \<^verbatim>\<open>ReturnValue\<close>) reaches \<^verbatim>\<open>co_await CoSuspend{}\<close>, reaches
  \<^verbatim>\<open>co_return v\<close>, or lets an exception escape. A Generator body (promise
  \<^verbatim>\<open>CurrentValue\<close>, whose \<^verbatim>\<open>await_transform\<close> is deleted) reaches \<^verbatim>\<open>co_yield v\<close>, returns
  without a value, or lets an exception escape. \<^verbatim>\<open>co_await CoDontSuspend{}\<close> does not
  suspend and is part of the run. The body is a function of the resume point, so what is
  run between two suspensions always comes to an end.
\<close>

datatype ('v, 's) routine_step = Await 's | CoReturn 'v | RThrow exception

datatype ('v, 's) generator_step = CoYield 'v 's | CoReturnVoid | GThrow exception

type_synonym ('v, 's) routine_body = "'s \<Rightarrow> ('v, 's) routine_step"

type_synonym ('v, 's) generator_body = "'s \<Rightarrow> ('v, 's) generator_step"

definition return_value :: "'v \<Rightarrow> 'v promise_type \<Rightarrow> 'v promise_type" where
  "return_value v p = p\<lparr>val := v\<rparr>"

definition yield_value :: "'v \<Rightarrow> 'v promise_type \<Rightarrow> 'v promise_type" where
  "yield_value v p = p\<lparr>val := v\<rparr>"

definition unhandled_exception :: "exception \<Rightarrow> 'v promise_type \<Rightarrow> 'v promise_type" where
  "unhandled_exception e p = p\<lparr>exc := Some e\<rparr>"

text \<open>
  \<^verbatim>\<open>get_return_object\<close> with \<^verbatim>\<open>initial_suspend\<close> returning \<^verbatim>\<open>suspend_always\<close>: the new
  coroutine has not run, its promise holds no exception and the value-initialised
  \<^verbatim>\<open>U value {}\<close>, here \<open>d\<close>.
\<close>

definition initial_frame :: "'v \<Rightarrow> 's \<Rightarrow> ('v, 's) frame" where
  "initial_frame d s0 = \<lparr>promise = \<lparr>exc = None, val = d\<rparr>, point = s0, finished = False\<rparr>"

text \<open>
  \<^verbatim>\<open>co.resume()\<close> on a coroutine that is not at its final suspend point. Both
  \<^verbatim>\<open>final_suspend\<close> functions return \<^verbatim>\<open>suspend_always\<close>, so after a return or an escaped
  exception the frame stays allocated and \<^verbatim>\<open>done()\<close> is true.
\<close>

definition resume_routine :: "('v, 's) routine_body \<Rightarrow> ('v, 's) frame \<Rightarrow> ('v, 's) frame" where
  "resume_routine body f =
     (case body (point f) of
        Await s \<Rightarrow> f\<lparr>point := s\<rparr>
      | CoReturn v \<Rightarrow> f\<lparr>promise := return_value v (promise f), finished := True\<rparr>
      | RThrow e \<Rightarrow> f\<lparr>promise := unhandled_exception e (promise f), finished := True\<rparr>)"

definition resume_generator :: "('v, 's) generator_body \<Rightarrow> ('v, 's) frame \<Rightarrow> ('v, 's) frame" where
  "resume_generator body f =
     (case body (point f) of
        CoYield v s \<Rightarrow> f\<lparr>promise := yield_value v (promise f), point := s\<rparr>
      | CoReturnVoid \<Rightarrow> f\<lparr>finished := True\<rparr>
      | GThrow e \<Rightarrow> f\<lparr>promise := unhandled_exception e (promise f), finished := True\<rparr>)"

section \<open>Memory: coroutine frames and CoRoutineT objects\<close>

text \<open>
  \<open>heap\<close> holds the allocated coroutine frames by address. \<open>objs\<close> holds the
  \<^verbatim>\<open>CoRoutineT\<close> objects that are alive, each with its only member \<^verbatim>\<open>Handle co\<close>: \<open>None\<close>
  is the null handle, \<open>Some a\<close> points to the frame at \<open>a\<close>.
\<close>

type_synonym handle = "nat option"

record ('v, 's) state =
  heap :: "nat \<rightharpoonup> ('v, 's) frame"
  objs :: "nat \<rightharpoonup> handle"

definition empty_state :: "('v, 's) state" where
  "empty_state = \<lparr>heap = Map.empty, objs = Map.empty\<rparr>"

text \<open>
  Calling a coroutine function: its frame is allocated at \<open>a\<close> and the
  \<^verbatim>\<open>CoRoutineT(Handle h)\<close> that \<^verbatim>\<open>get_return_object\<close> builds becomes the object \<open>x\<close>.
\<close>

definition spawn :: "'v \<Rightarrow> 's \<Rightarrow> nat \<Rightarrow> nat \<Rightarrow> ('v, 's) state \<Rightarrow> ('v, 's) state" where
  "spawn d s0 a x st =
     st\<lparr>heap := (heap st)(a \<mapsto> initial_frame d s0), objs := (objs st)(x \<mapsto> Some a)\<rparr>"

text \<open>What \<^verbatim>\<open>this->co\<close> refers to.\<close>

datatype ('v, 's) referent = NoObject | NullHandle | Dangling | Frame nat "('v, 's) frame"

definition deref :: "('v, 's) state \<Rightarrow> nat \<Rightarrow> ('v, 's) referent" where
  "deref st this =
     (case objs st this of
        None \<Rightarrow> NoObject
      | Some None \<Rightarrow> NullHandle
      | Some (Some a) \<Rightarrow> (case heap st a of None \<Rightarrow> Dangling | Some f \<Rightarrow> Frame a f))"

definition store :: "('v, 's) state \<Rightarrow> nat \<Rightarrow> ('v, 's) frame \<Rightarrow> ('v, 's) state" where
  "store st a f = st\<lparr>heap := (heap st)(a \<mapsto> f)\<rparr>"

section \<open>CoRoutineT\<close>

text \<open>\<^verbatim>\<open>Rethrow\<close>: the stored exception, if any, is thrown again.\<close>

definition Rethrow :: "('v, 's) frame \<Rightarrow> exception option" where
  "Rethrow f = exc (promise f)"

subsection \<open>Routine API\<close>

definition Do :: "('v, 's) routine_body \<Rightarrow> ('v, 's) state \<Rightarrow> nat \<Rightarrow> bool result \<times> ('v, 's) state" where
  "Do body st this =
     (case deref st this of
        NoObject \<Rightarrow> (UndefinedBehaviour, st)
      | NullHandle \<Rightarrow> (AssertFailed, st)
      | Dangling \<Rightarrow> (UndefinedBehaviour, st)
      | Frame a f \<Rightarrow>
          if finished f then (Returns False, st)
          else (let f' = resume_routine body f; st' = store st a f' in
                case Rethrow f' of
                  Some e \<Rightarrow> (Throws e, st')
                | None \<Rightarrow> (Returns (\<not> finished f'), st')))"

definition Get :: "('v, 's) state \<Rightarrow> nat \<Rightarrow> 'v result" where
  "Get st this =
     (case deref st this of
        NoObject \<Rightarrow> UndefinedBehaviour
      | NullHandle \<Rightarrow> AssertFailed
      | Dangling \<Rightarrow> UndefinedBehaviour
      | Frame a f \<Rightarrow> if finished f then Returns (val (promise f)) else AssertFailed)"

text \<open>
  \<^verbatim>\<open>pick\<close> moves the value out; \<open>moved v\<close> is what a moved-from \<^verbatim>\<open>T\<close> that held \<open>v\<close>
  holds afterwards (\<open>v\<close> itself for a type such as \<^verbatim>\<open>int\<close>).
\<close>

definition Pick :: "('v \<Rightarrow> 'v) \<Rightarrow> ('v, 's) state \<Rightarrow> nat \<Rightarrow> 'v result \<times> ('v, 's) state" where
  "Pick moved st this =
     (case deref st this of
        NoObject \<Rightarrow> (UndefinedBehaviour, st)
      | NullHandle \<Rightarrow> (AssertFailed, st)
      | Dangling \<Rightarrow> (UndefinedBehaviour, st)
      | Frame a f \<Rightarrow>
          if finished f
          then (Returns (val (promise f)),
                store st a (f\<lparr>promise := (promise f)\<lparr>val := moved (val (promise f))\<rparr>\<rparr>))
          else (AssertFailed, st))"

subsection \<open>Generator API\<close>

definition Next :: "('v, 's) generator_body \<Rightarrow> ('v, 's) state \<Rightarrow> nat \<Rightarrow> 'v result \<times> ('v, 's) state" where
  "Next body st this =
     (case deref st this of
        NoObject \<Rightarrow> (UndefinedBehaviour, st)
      | NullHandle \<Rightarrow> (AssertFailed, st)
      | Dangling \<Rightarrow> (UndefinedBehaviour, st)
      | Frame a f \<Rightarrow>
          if finished f then (Throws (Exc errmsg), st)
          else (let f' = resume_generator body f; st' = store st a f' in
                case Rethrow f' of
                  Some e \<Rightarrow> (Throws e, st')
                | None \<Rightarrow>
                    if finished f' then (Throws (Exc errmsg), st')
                    else (Returns (val (promise f')), st')))"

definition PickNext ::
  "('v \<Rightarrow> 'v) \<Rightarrow> ('v, 's) generator_body \<Rightarrow> ('v, 's) state \<Rightarrow> nat \<Rightarrow> 'v result \<times> ('v, 's) state" where
  "PickNext moved body st this =
     (case deref st this of
        NoObject \<Rightarrow> (UndefinedBehaviour, st)
      | NullHandle \<Rightarrow> (AssertFailed, st)
      | Dangling \<Rightarrow> (UndefinedBehaviour, st)
      | Frame a f \<Rightarrow>
          if finished f then (Throws (Exc errmsg), st)
          else (let f' = resume_generator body f; st' = store st a f' in
                case Rethrow f' of
                  Some e \<Rightarrow> (Throws e, st')
                | None \<Rightarrow>
                    if finished f' then (Throws (Exc errmsg), st')
                    else (Returns (val (promise f')),
                          store st a (f'\<lparr>promise := (promise f')\<lparr>val := moved (val (promise f'))\<rparr>\<rparr>))))"

subsection \<open>Construction by move, move assignment, destruction\<close>

text \<open>\<^verbatim>\<open>co.destroy()\<close> frees the frame; on a handle to no frame it is undefined.\<close>

definition destroy :: "('v, 's) state \<Rightarrow> nat \<Rightarrow> unit result \<times> ('v, 's) state" where
  "destroy st a =
     (case heap st a of
        None \<Rightarrow> (UndefinedBehaviour, st)
      | Some f \<Rightarrow> (Returns (), st\<lparr>heap := (heap st)(a := None)\<rparr>))"

text \<open>\<^verbatim>\<open>if(co) co.destroy();\<close>\<close>

definition destroy_if_set :: "('v, 's) state \<Rightarrow> handle \<Rightarrow> unit result \<times> ('v, 's) state" where
  "destroy_if_set st c = (case c of None \<Rightarrow> (Returns (), st) | Some a \<Rightarrow> destroy st a)"

text \<open>
  \<^verbatim>\<open>CoRoutineT(CoRoutineT&& r)\<close> builds the new object \<open>this\<close>, which is storage that
  holds no object yet, from the object \<open>r\<close>.
\<close>

definition move_construct :: "('v, 's) state \<Rightarrow> nat \<Rightarrow> nat \<Rightarrow> unit result \<times> ('v, 's) state" where
  "move_construct st this r =
     (case objs st this of
        Some c \<Rightarrow> (UndefinedBehaviour, st)
      | None \<Rightarrow>
         (case objs st r of
            None \<Rightarrow> (UndefinedBehaviour, st)
          | Some rc \<Rightarrow> (Returns (), st\<lparr>objs := (objs st)(this \<mapsto> rc, r \<mapsto> None)\<rparr>)))"

text \<open>\<^verbatim>\<open>operator=(CoRoutineT&& r)\<close>; the returned reference to \<^verbatim>\<open>*this\<close> is left out.\<close>

definition move_assign :: "('v, 's) state \<Rightarrow> nat \<Rightarrow> nat \<Rightarrow> unit result \<times> ('v, 's) state" where
  "move_assign st this r =
     (case objs st this of
        None \<Rightarrow> (UndefinedBehaviour, st)
      | Some c \<Rightarrow>
         (case objs st r of
            None \<Rightarrow> (UndefinedBehaviour, st)
          | Some rc \<Rightarrow>
              if this \<noteq> r then
                (case destroy_if_set st c of
                   (Returns u, st1) \<Rightarrow> (Returns (), st1\<lparr>objs := (objs st1)(this \<mapsto> rc, r \<mapsto> None)\<rparr>)
                 | (Throws e, st1) \<Rightarrow> (Throws e, st1)
                 | (AssertFailed, st1) \<Rightarrow> (AssertFailed, st1)
                 | (UndefinedBehaviour, st1) \<Rightarrow> (UndefinedBehaviour, st1))
              else (Returns (), st)))"

text \<open>\<^verbatim>\<open>~CoRoutineT()\<close>; afterwards the object is no more.\<close>

definition destructor :: "('v, 's) state \<Rightarrow> nat \<Rightarrow> unit result \<times> ('v, 's) state" where
  "destructor st this =
     (case objs st this of
        None \<Rightarrow> (UndefinedBehaviour, st)
      | Some c \<Rightarrow>
         (case destroy_if_set st c of
            (Returns u, st1) \<Rightarrow> (Returns (), st1\<lparr>objs := (objs st1)(this := None)\<rparr>)
          | (Throws e, st1) \<Rightarrow> (Throws e, st1)
          | (AssertFailed, st1) \<Rightarrow> (AssertFailed, st1)
          | (UndefinedBehaviour, st1) \<Rightarrow> (UndefinedBehaviour, st1)))"

subsection \<open>Iterator\<close>

text \<open>\<^verbatim>\<open>CoRoutineT* gen\<close>: \<open>None\<close> is \<^verbatim>\<open>nullptr\<close>, \<open>Some x\<close> points to the object \<open>x\<close>.\<close>

record iterator =
  gen :: "nat option"

text \<open>\<^verbatim>\<open>explicit Iterator(CoRoutineT* g)\<close>. \<^verbatim>\<open>gen->co.done()\<close> has no assertion in front of it.\<close>

definition Iterator ::
  "('v, 's) generator_body \<Rightarrow> ('v, 's) state \<Rightarrow> nat option \<Rightarrow> iterator result \<times> ('v, 's) state" where
  "Iterator body st g =
     (case g of
        None \<Rightarrow> (Returns \<lparr>gen = None\<rparr>, st)
      | Some x \<Rightarrow>
         (case deref st x of
            NoObject \<Rightarrow> (UndefinedBehaviour, st)
          | NullHandle \<Rightarrow> (UndefinedBehaviour, st)
          | Dangling \<Rightarrow> (UndefinedBehaviour, st)
          | Frame a f \<Rightarrow>
              if \<not> finished f then
                (let f' = resume_generator body f; st' = store st a f' in
                 case Rethrow f' of
                   Some e \<Rightarrow> (Throws e, st')
                 | None \<Rightarrow> (Returns \<lparr>gen = (if finished f' then None else Some x)\<rparr>, st'))
              else (Returns \<lparr>gen = Some x\<rparr>, st)))"

definition begin_iter ::
  "('v, 's) generator_body \<Rightarrow> ('v, 's) state \<Rightarrow> nat \<Rightarrow> iterator result \<times> ('v, 's) state" where
  "begin_iter body st this = Iterator body st (Some this)"

text \<open>\<^verbatim>\<open>end()\<close> returns \<^verbatim>\<open>std::default_sentinel_t{}\<close> and reads nothing.\<close>

definition end_iter :: "('v, 's) state \<Rightarrow> nat \<Rightarrow> unit result" where
  "end_iter st this = Returns ()"

text \<open>\<^verbatim>\<open>operator*\<close>\<close>

definition operator_deref :: "('v, 's) state \<Rightarrow> iterator \<Rightarrow> 'v result" where
  "operator_deref st it =
     (case gen it of
        None \<Rightarrow> AssertFailed
      | Some x \<Rightarrow>
         (case deref st x of
            NoObject \<Rightarrow> UndefinedBehaviour
          | NullHandle \<Rightarrow> UndefinedBehaviour
          | Dangling \<Rightarrow> UndefinedBehaviour
          | Frame a f \<Rightarrow> Returns (val (promise f))))"

text \<open>
  \<^verbatim>\<open>operator++\<close> resumes without looking at \<^verbatim>\<open>done()\<close>; resuming a coroutine that is at
  its final suspend point is undefined.
\<close>

definition operator_incr ::
  "('v, 's) generator_body \<Rightarrow> ('v, 's) state \<Rightarrow> iterator \<Rightarrow> iterator result \<times> ('v, 's) state" where
  "operator_incr body st it =
     (case gen it of
        None \<Rightarrow> (UndefinedBehaviour, st)
      | Some x \<Rightarrow>
         (case deref st x of
            NoObject \<Rightarrow> (UndefinedBehaviour, st)
          | NullHandle \<Rightarrow> (UndefinedBehaviour, st)
          | Dangling \<Rightarrow> (UndefinedBehaviour, st)
          | Frame a f \<Rightarrow>
              if finished f then (UndefinedBehaviour, st)
              else (let f' = resume_generator body f; st' = store st a f' in
                    case Rethrow f' of
                      Some e \<Rightarrow> (Throws e, st')
                    | None \<Rightarrow> (Returns (it\<lparr>gen := (if finished f' then None else Some x)\<rparr>), st'))))"

text \<open>\<^verbatim>\<open>operator==(std::default_sentinel_t)\<close>\<close>

definition operator_eq :: "iterator \<Rightarrow> bool" where
  "operator_eq it = (gen it = None)"

section \<open>Drivers\<close>

text \<open>
  A caller that calls \<^verbatim>\<open>Do\<close> (or \<^verbatim>\<open>Next\<close>) \<open>n\<close> times, catching what is thrown and going on,
  as the tests do; the outcomes are listed in order.
\<close>

fun Do_n ::
  "('v, 's) routine_body \<Rightarrow> nat \<Rightarrow> ('v, 's) state \<Rightarrow> nat \<Rightarrow> bool result list \<times> ('v, 's) state" where
  "Do_n body 0 st this = ([], st)"
| "Do_n body (Suc n) st this =
     (case Do body st this of
        (r, st1) \<Rightarrow> (case Do_n body n st1 this of (rs, st2) \<Rightarrow> (r # rs, st2)))"

fun Next_n ::
  "('v, 's) generator_body \<Rightarrow> nat \<Rightarrow> ('v, 's) state \<Rightarrow> nat \<Rightarrow> 'v result list \<times> ('v, 's) state" where
  "Next_n body 0 st this = ([], st)"
| "Next_n body (Suc n) st this =
     (case Next body st this of
        (r, st1) \<Rightarrow> (case Next_n body n st1 this of (rs, st2) \<Rightarrow> (r # rs, st2)))"

text \<open>
  A caller that takes values with \<^verbatim>\<open>Next\<close> until a call does not return one. \<open>n\<close> bounds
  the number of calls, since a generator need not end; \<open>None\<close> says the bound was
  reached, \<open>Some r\<close> is the outcome of the call that stopped the loop.
\<close>

fun Next_loop ::
  "('v, 's) generator_body \<Rightarrow> nat \<Rightarrow> ('v, 's) state \<Rightarrow> nat
     \<Rightarrow> 'v list \<times> 'v result option \<times> ('v, 's) state" where
  "Next_loop body 0 st this = ([], None, st)"
| "Next_loop body (Suc n) st this =
     (case Next body st this of
        (Returns v, st1) \<Rightarrow>
          (case Next_loop body n st1 this of (vs, stop, st2) \<Rightarrow> (v # vs, stop, st2))
      | (Throws e, st1) \<Rightarrow> ([], Some (Throws e), st1)
      | (AssertFailed, st1) \<Rightarrow> ([], Some AssertFailed, st1)
      | (UndefinedBehaviour, st1) \<Rightarrow> ([], Some UndefinedBehaviour, st1))"

text \<open>
  The range-based \<^verbatim>\<open>for(T v : g)\<close> of the tests: \<^verbatim>\<open>auto it = g.begin()\<close>, then while
  \<^verbatim>\<open>it != g.end()\<close> the loop body sees \<^verbatim>\<open>*it\<close> and \<^verbatim>\<open>++it\<close> follows. The values seen are
  listed; \<open>Some (Returns ())\<close> says the loop ended at the sentinel. \<open>n\<close> bounds the
  number of resumes (one in \<^verbatim>\<open>begin\<close>, one in each \<^verbatim>\<open>++\<close>).
\<close>

fun for_loop ::
  "('v, 's) generator_body \<Rightarrow> nat \<Rightarrow> ('v, 's) state \<Rightarrow> iterator
     \<Rightarrow> 'v list \<times> unit result option \<times> ('v, 's) state" where
  "for_loop body n st it =
     (if operator_eq it then ([], Some (Returns ()), st)
      else
        (case operator_deref st it of
           Throws e \<Rightarrow> ([], Some (Throws e), st)
         | AssertFailed \<Rightarrow> ([], Some AssertFailed, st)
         | UndefinedBehaviour \<Rightarrow> ([], Some UndefinedBehaviour, st)
         | Returns v \<Rightarrow>
            (case n of
               0 \<Rightarrow> ([v], None, st)
             | Suc m \<Rightarrow>
                (case operator_incr body st it of
                   (Returns it1, st1) \<Rightarrow>
                     (case for_loop body m st1 it1 of (vs, stop, st2) \<Rightarrow> (v # vs, stop, st2))
                 | (Throws e, st1) \<Rightarrow> ([v], Some (Throws e), st1)
                 | (AssertFailed, st1) \<Rightarrow> ([v], Some AssertFailed, st1)
                 | (UndefinedBehaviour, st1) \<Rightarrow> ([v], Some UndefinedBehaviour, st1)))))"

definition range_for ::
  "('v, 's) generator_body \<Rightarrow> nat \<Rightarrow> ('v, 's) state \<Rightarrow> nat
     \<Rightarrow> 'v list \<times> unit result option \<times> ('v, 's) state" where
  "range_for body n st this =
     (case n of
        0 \<Rightarrow> ([], None, st)
      | Suc m \<Rightarrow>
         (case begin_iter body st this of
            (Returns it, st1) \<Rightarrow> for_loop body m st1 it
          | (Throws e, st1) \<Rightarrow> ([], Some (Throws e), st1)
          | (AssertFailed, st1) \<Rightarrow> ([], Some AssertFailed, st1)
          | (UndefinedBehaviour, st1) \<Rightarrow> ([], Some UndefinedBehaviour, st1)))"

section \<open>What a body does from a resume point\<close>

fun yields_then_completes :: "('v, 's) generator_body \<Rightarrow> 's \<Rightarrow> 'v list \<Rightarrow> bool" where
  "yields_then_completes body s [] =
     (case body s of CoReturnVoid \<Rightarrow> True | CoYield w t \<Rightarrow> False | GThrow e \<Rightarrow> False)"
| "yields_then_completes body s (v # vs) =
     (case body s of
        CoYield w t \<Rightarrow> w = v \<and> yields_then_completes body t vs
      | CoReturnVoid \<Rightarrow> False
      | GThrow e \<Rightarrow> False)"

fun yields_then_throws :: "('v, 's) generator_body \<Rightarrow> 's \<Rightarrow> 'v list \<Rightarrow> exception \<Rightarrow> bool" where
  "yields_then_throws body s [] e =
     (case body s of GThrow e' \<Rightarrow> e' = e | CoYield w t \<Rightarrow> False | CoReturnVoid \<Rightarrow> False)"
| "yields_then_throws body s (v # vs) e =
     (case body s of
        CoYield w t \<Rightarrow> w = v \<and> yields_then_throws body t vs e
      | CoReturnVoid \<Rightarrow> False
      | GThrow e' \<Rightarrow> False)"

fun suspends_then_returns :: "('v, 's) routine_body \<Rightarrow> 's \<Rightarrow> nat \<Rightarrow> 'v \<Rightarrow> bool" where
  "suspends_then_returns body s 0 v =
     (case body s of CoReturn w \<Rightarrow> w = v | Await t \<Rightarrow> False | RThrow e \<Rightarrow> False)"
| "suspends_then_returns body s (Suc k) v =
     (case body s of
        Await t \<Rightarrow> suspends_then_returns body t k v
      | CoReturn w \<Rightarrow> False
      | RThrow e \<Rightarrow> False)"

fun suspends_then_throws :: "('v, 's) routine_body \<Rightarrow> 's \<Rightarrow> nat \<Rightarrow> exception \<Rightarrow> bool" where
  "suspends_then_throws body s 0 e =
     (case body s of RThrow e' \<Rightarrow> e' = e | Await t \<Rightarrow> False | CoReturn w \<Rightarrow> False)"
| "suspends_then_throws body s (Suc k) e =
     (case body s of
        Await t \<Rightarrow> suspends_then_throws body t k e
      | CoReturn w \<Rightarrow> False
      | RThrow e' \<Rightarrow> False)"

section \<open>The coroutines of the test program\<close>

text \<open>
  The resume point is counted from 0 at the start of the body; \<^verbatim>\<open>RangeGenerator\<close> keeps
  its loop variable \<^verbatim>\<open>i\<close> instead. The values are small \<^verbatim>\<open>int\<close>s.
\<close>

definition SimpleRoutine :: "(int, nat) routine_body" where
  "SimpleRoutine pc = CoReturn 42"

definition StepRoutine :: "(int, nat) routine_body" where
  "StepRoutine pc = (if pc = 0 then Await 1 else if pc = 1 then Await 2 else CoReturn 7)"

definition ThrowRoutine :: "(int, nat) routine_body" where
  "ThrowRoutine pc = (if pc = 0 then Await 1 else RThrow (Exc ''boom''))"

definition SimpleGenerator :: "(int, nat) generator_body" where
  "SimpleGenerator pc =
     (if pc = 0 then CoYield 1 1 else if pc = 1 then CoYield 2 2
      else if pc = 2 then CoYield 3 3 else CoReturnVoid)"

definition RangeGenerator :: "int \<Rightarrow> (int, int) generator_body" where
  "RangeGenerator n i = (if i < n then CoYield i (i + 1) else CoReturnVoid)"

definition ThrowGenerator :: "(int, nat) generator_body" where
  "ThrowGenerator pc = (if pc = 0 then CoYield 1 1 else GThrow (Exc ''gen boom''))"

text \<open>\<^verbatim>\<open>auto g = F();\<close> in a program that holds nothing else: object 0, frame at 0.\<close>

definition fresh :: "'v \<Rightarrow> 's \<Rightarrow> ('v, 's) state" where
  "fresh d s0 = spawn d s0 0 0 empty_state"

section \<open>Observations used in the statements\<close>

declare for_loop.simps [simp del]

text \<open>The exception stored in the promise of the coroutine that \<open>this\<close> owns.\<close>

definition stored_exception :: "('v, 's) state \<Rightarrow> nat \<Rightarrow> exception option" where
  "stored_exception st this =
     (case deref st this of
        NoObject \<Rightarrow> None
      | NullHandle \<Rightarrow> None
      | Dangling \<Rightarrow> None
      | Frame a f \<Rightarrow> exc (promise f))"

text \<open>
  The specification's reading of a run of \<^verbatim>\<open>Next\<close> calls as an iteration: the same values
  and state; where \<^verbatim>\<open>Next\<close> stopped with a stored exception the iteration leaves by it, and
  where it stopped without one (exhaustion) the iteration ends silently.
\<close>

definition as_iteration ::
  "'v list \<times> 'v result option \<times> ('v, 's) state \<Rightarrow> nat
     \<Rightarrow> 'v list \<times> unit result option \<times> ('v, 's) state" where
  "as_iteration run this =
     (case run of
        (vs, stop, st) \<Rightarrow>
          (vs,
           (case stop of
              None \<Rightarrow> None
            | Some r \<Rightarrow>
               (case stored_exception st this of
                  None \<Rightarrow> Some (Returns ())
                | Some e \<Rightarrow> Some (Throws e))),
           st))"

text \<open>
  \<^verbatim>\<open>auto g = RangeGenerator(1); for(int v : g) ...\<close>: the state after the loop.
\<close>

definition exhausted_RangeGenerator :: "(int, int) state" where
  "exhausted_RangeGenerator = snd (snd (range_for (RangeGenerator 1) 2 (fresh 0 0) 0))"

text \<open>
  Single ownership: no two objects hold a handle to the same frame, and a frame is
  allocated exactly when some object holds a handle to it.
\<close>

definition well_owned :: "('v, 's) state \<Rightarrow> bool" where
  "well_owned st \<longleftrightarrow>
     (\<forall>x y a. objs st x = Some (Some a) \<and> objs st y = Some (Some a) \<longrightarrow> x = y)
     \<and> (\<forall>a. (\<exists>f. heap st a = Some f) \<longleftrightarrow> (\<exists>x. objs st x = Some (Some a)))"

text \<open>\<^verbatim>\<open>auto r1 = F(); auto r2 = F();\<close>: objects 0 and 1 with frames at 0 and 1.\<close>

definition two_coroutines :: "(int, nat) state" where
  "two_coroutines = spawn 0 0 1 1 (fresh 0 0)"

section \<open>One call on a frame\<close>

lemma deref_store:
  "deref st this = Frame a f \<Longrightarrow> deref (store st a f') this = Frame a f'"
  by (auto simp: deref_def store_def split: option.splits)

lemma deref_fresh: "deref (fresh d s0) 0 = Frame 0 (initial_frame d s0)"
  by (simp add: deref_def fresh_def spawn_def empty_state_def)

lemma Next_yield:
  assumes "deref st g = Frame a f" "\<not> finished f" "exc (promise f) = None"
    and "body (point f) = CoYield v s"
  shows "Next body st g = (Returns v, store st a (f\<lparr>promise := (promise f)\<lparr>val := v\<rparr>, point := s\<rparr>))"
  using assms by (simp add: Next_def resume_generator_def Rethrow_def yield_value_def)

lemma Next_complete:
  assumes "deref st g = Frame a f" "\<not> finished f" "exc (promise f) = None"
    and "body (point f) = CoReturnVoid"
  shows "Next body st g = (Throws (Exc errmsg), store st a (f\<lparr>finished := True\<rparr>))"
  using assms by (simp add: Next_def resume_generator_def Rethrow_def)

lemma Next_throw:
  assumes "deref st g = Frame a f" "\<not> finished f" "body (point f) = GThrow e"
  shows "Next body st g =
           (Throws e, store st a (f\<lparr>promise := (promise f)\<lparr>exc := Some e\<rparr>, finished := True\<rparr>))"
  using assms by (simp add: Next_def resume_generator_def Rethrow_def unhandled_exception_def)

lemma Next_finished:
  assumes "deref st g = Frame a f" "finished f"
  shows "Next body st g = (Throws (Exc errmsg), st)"
  using assms by (simp add: Next_def)

lemma Next_n_finished:
  assumes "deref st g = Frame a f" "finished f"
  shows "Next_n body m st g = (replicate m (Throws (Exc errmsg)), st)"
  using assms by (induction m) (simp_all add: Next_finished)

lemma Next_n_completes:
  assumes "deref st g = Frame a f" "\<not> finished f" "exc (promise f) = None"
    and "body (point f) = CoReturnVoid"
  shows "fst (Next_n body m st g) = replicate m (Throws (Exc errmsg))"
proof (cases m)
  case 0
  then show ?thesis by simp
next
  case (Suc k)
  have d: "deref (store st a (f\<lparr>finished := True\<rparr>)) g = Frame a (f\<lparr>finished := True\<rparr>)"
    using assms(1) by (rule deref_store)
  show ?thesis
    using Suc Next_complete [where body = body, OF assms] Next_n_finished [OF d, of body k] by simp
qed

lemma Next_n_yields:
  assumes "deref st g = Frame a f" "\<not> finished f" "exc (promise f) = None"
    and "yields_then_completes body (point f) vs"
  shows "fst (Next_n body (length vs + m) st g) = map Returns vs @ replicate m (Throws (Exc errmsg))"
  using assms
proof (induction vs arbitrary: st f)
  case Nil
  then have "body (point f) = CoReturnVoid"
    by (simp split: generator_step.splits)
  with Nil show ?case
    by (simp add: Next_n_completes)
next
  case (Cons v vs)
  from Cons.prems(4) obtain s where
    step: "body (point f) = CoYield v s" and rest: "yields_then_completes body s vs"
    by (auto split: generator_step.splits)
  let ?f = "f\<lparr>promise := (promise f)\<lparr>val := v\<rparr>, point := s\<rparr>"
  have d: "deref (store st a ?f) g = Frame a ?f"
    using Cons.prems(1) by (rule deref_store)
  have "fst (Next_n body (length vs + m) (store st a ?f) g)
          = map Returns vs @ replicate m (Throws (Exc errmsg))"
    using Cons.IH [OF d] Cons.prems(2,3) rest by simp
  then show ?case
    using Next_yield [where body = body, OF Cons.prems(1-3) step] by (simp add: case_prod_beta)
qed

text \<open>
  C1. A Generator that is suspended and whose body, from there, yields \<open>vs\<close> in order and
  then completes: the first \<open>length vs\<close> calls of \<^verbatim>\<open>Next\<close> return the elements of \<open>vs\<close> in
  that order, and each of the \<open>m\<close> calls after them throws \<^verbatim>\<open>Exc("Generator exhausted")\<close>,
  for every \<open>m\<close>; it never yields again. A Generator just created is such a one.
\<close>

theorem C1_Next_returns_the_yielded_values_then_exhausted:
  assumes "deref st g = Frame a f" "\<not> finished f" "exc (promise f) = None"
    and "yields_then_completes body (point f) vs"
  shows "fst (Next_n body (length vs + m) st g)
           = map Returns vs @ replicate m (Throws (Exc errmsg))"
  using assms by (rule Next_n_yields)

theorem C1_witness:
  "deref (fresh 0 0) 0 = Frame 0 (initial_frame (0::int) (0::nat))
   \<and> \<not> finished (initial_frame (0::int) (0::nat))
   \<and> exc (promise (initial_frame (0::int) (0::nat))) = None
   \<and> yields_then_completes SimpleGenerator (point (initial_frame (0::int) (0::nat))) [1, 2, 3]
   \<and> fst (Next_n SimpleGenerator (length [1, 2, 3 :: int] + 2) (fresh 0 0) 0)
       = map Returns [1, 2, 3] @ replicate 2 (Throws (Exc errmsg))"
proof -
  have h1: "deref (fresh 0 0) 0 = Frame 0 (initial_frame (0::int) (0::nat))"
    by (rule deref_fresh)
  have h2: "\<not> finished (initial_frame (0::int) (0::nat))"
    by (simp add: initial_frame_def)
  have h3: "exc (promise (initial_frame (0::int) (0::nat))) = None"
    by (simp add: initial_frame_def)
  have h4: "yields_then_completes SimpleGenerator (point (initial_frame (0::int) (0::nat))) [1, 2, 3]"
    by (simp add: initial_frame_def SimpleGenerator_def)
  from h1 h2 h3 h4
    C1_Next_returns_the_yielded_values_then_exhausted [where body = SimpleGenerator, OF h1 h2 h3 h4, of 2]
  show ?thesis by blast
qed

lemma Do_await:
  assumes "deref st r = Frame a f" "\<not> finished f" "exc (promise f) = None"
    and "body (point f) = Await s"
  shows "Do body st r = (Returns True, store st a (f\<lparr>point := s\<rparr>))"
  using assms by (simp add: Do_def resume_routine_def Rethrow_def)

lemma Do_return:
  assumes "deref st r = Frame a f" "\<not> finished f" "exc (promise f) = None"
    and "body (point f) = CoReturn v"
  shows "Do body st r =
           (Returns False, store st a (f\<lparr>promise := (promise f)\<lparr>val := v\<rparr>, finished := True\<rparr>))"
  using assms by (simp add: Do_def resume_routine_def Rethrow_def return_value_def)

lemma Do_throw:
  assumes "deref st r = Frame a f" "\<not> finished f" "body (point f) = RThrow e"
  shows "Do body st r =
           (Throws e, store st a (f\<lparr>promise := (promise f)\<lparr>exc := Some e\<rparr>, finished := True\<rparr>))"
  using assms by (simp add: Do_def resume_routine_def Rethrow_def unhandled_exception_def)

lemma Do_finished:
  assumes "deref st r = Frame a f" "finished f"
  shows "Do body st r = (Returns False, st)"
  using assms by (simp add: Do_def)

lemma Do_n_finished:
  assumes "deref st r = Frame a f" "finished f"
  shows "Do_n body m st r = (replicate m (Returns False), st)"
  using assms by (induction m) (simp_all add: Do_finished)

lemma Get_unfinished:
  assumes "deref st r = Frame a f" "\<not> finished f"
  shows "Get st r = AssertFailed"
  using assms by (simp add: Get_def)

lemma Get_finished:
  assumes "deref st r = Frame a f" "finished f"
  shows "Get st r = Returns (val (promise f))"
  using assms by (simp add: Get_def)

lemma Do_n_Suc_await:
  assumes "deref st r = Frame a f" "\<not> finished f" "exc (promise f) = None"
    and "body (point f) = Await s"
  shows "Do_n body (Suc n) st r =
           (Returns True # fst (Do_n body n (store st a (f\<lparr>point := s\<rparr>)) r),
            snd (Do_n body n (store st a (f\<lparr>point := s\<rparr>)) r))"
  using Do_await [where body = body, OF assms] by (simp add: case_prod_beta)

lemma Do_n_returns:
  assumes "deref st r = Frame a f" "\<not> finished f" "exc (promise f) = None"
    and "suspends_then_returns body (point f) k v"
  shows "(\<forall>j\<le>k. fst (Do_n body j st r) = replicate j (Returns True)
                \<and> Get (snd (Do_n body j st r)) r = AssertFailed)
         \<and> (\<forall>m. fst (Do_n body (Suc (k + m)) st r)
                    = replicate k (Returns True) @ replicate (Suc m) (Returns False)
                \<and> Get (snd (Do_n body (Suc (k + m)) st r)) r = Returns v)"
  using assms
proof (induction k arbitrary: st f)
  case 0
  then have step: "body (point f) = CoReturn v"
    by (simp split: routine_step.splits)
  let ?f = "f\<lparr>promise := (promise f)\<lparr>val := v\<rparr>, finished := True\<rparr>"
  have d: "deref (store st a ?f) r = Frame a ?f"
    using "0.prems"(1) by (rule deref_store)
  have fin: "finished ?f" by simp
  have one: "Do body st r = (Returns False, store st a ?f)"
    using Do_return [where body = body, OF "0.prems"(1-3) step] .
  have "Do_n body (Suc m) st r = (replicate (Suc m) (Returns False), store st a ?f)" for m
    using one Do_n_finished [OF d fin, of body m] by simp
  moreover have "Get (store st a ?f) r = Returns v"
    using Get_finished [OF d fin] by simp
  moreover have "Get st r = AssertFailed"
    using Get_unfinished [OF "0.prems"(1,2)] .
  ultimately show ?case by simp
next
  case (Suc k)
  from Suc.prems(4) obtain s where
    step: "body (point f) = Await s" and rest: "suspends_then_returns body s k v"
    by (auto split: routine_step.splits)
  let ?f = "f\<lparr>point := s\<rparr>"
  let ?st = "store st a ?f"
  have d: "deref ?st r = Frame a ?f"
    using Suc.prems(1) by (rule deref_store)
  have IH:
    "(\<forall>j\<le>k. fst (Do_n body j ?st r) = replicate j (Returns True)
                \<and> Get (snd (Do_n body j ?st r)) r = AssertFailed)
     \<and> (\<forall>m. fst (Do_n body (Suc (k + m)) ?st r)
                = replicate k (Returns True) @ replicate (Suc m) (Returns False)
            \<and> Get (snd (Do_n body (Suc (k + m)) ?st r)) r = Returns v)"
    using Suc.IH [OF d] Suc.prems(2,3) rest by simp
  have unfold: "Do_n body (Suc n) st r = (Returns True # fst (Do_n body n ?st r), snd (Do_n body n ?st r))" for n
    using Do_n_Suc_await [where body = body, OF Suc.prems(1-3) step] .
  have before: "fst (Do_n body j st r) = replicate j (Returns True)
                  \<and> Get (snd (Do_n body j st r)) r = AssertFailed" if "j \<le> Suc k" for j
  proof (cases j)
    case 0
    then show ?thesis using Get_unfinished [OF Suc.prems(1,2)] by simp
  next
    case (Suc i)
    with that have "i \<le> k" by simp
    with IH show ?thesis unfolding Suc unfold by simp
  qed
  have after: "fst (Do_n body (Suc (Suc k + m)) st r)
                  = replicate (Suc k) (Returns True) @ replicate (Suc m) (Returns False)
               \<and> Get (snd (Do_n body (Suc (Suc k + m)) st r)) r = Returns v" for m
    using IH unfolding unfold by simp
  from before after show ?case by blast
qed

lemma Do_n_throws:
  assumes "deref st r = Frame a f" "\<not> finished f" "exc (promise f) = None"
    and "suspends_then_throws body (point f) k e"
  shows "\<exists>f'. Do_n body (Suc (k + m)) st r
                 = (replicate k (Returns True) @ Throws e # replicate m (Returns False),
                    store st a f')
              \<and> finished f' \<and> promise f' = (promise f)\<lparr>exc := Some e\<rparr>"
  using assms
proof (induction k arbitrary: st f)
  case 0
  then have step: "body (point f) = RThrow e"
    by (auto split: routine_step.splits)
  let ?f = "f\<lparr>promise := (promise f)\<lparr>exc := Some e\<rparr>, finished := True\<rparr>"
  have d: "deref (store st a ?f) r = Frame a ?f"
    using "0.prems"(1) by (rule deref_store)
  have fin: "finished ?f" by simp
  have "Do_n body (Suc m) st r = (Throws e # replicate m (Returns False), store st a ?f)"
    using Do_throw [where body = body, OF "0.prems"(1,2) step] Do_n_finished [OF d fin, of body m]
    by simp
  then show ?case by auto
next
  case (Suc k)
  from Suc.prems(4) obtain s where
    step: "body (point f) = Await s" and rest: "suspends_then_throws body s k e"
    by (auto split: routine_step.splits)
  let ?f = "f\<lparr>point := s\<rparr>"
  let ?st = "store st a ?f"
  have d: "deref ?st r = Frame a ?f"
    using Suc.prems(1) by (rule deref_store)
  obtain f' where
    run: "Do_n body (Suc (k + m)) ?st r
            = (replicate k (Returns True) @ Throws e # replicate m (Returns False), store ?st a f')"
    and f': "finished f'" "promise f' = (promise ?f)\<lparr>exc := Some e\<rparr>"
    using Suc.IH [OF d] Suc.prems(2,3) rest by auto
  have same: "store ?st a f' = store st a f'"
    by (simp add: store_def)
  have "Do_n body (Suc (Suc k + m)) st r
          = (replicate (Suc k) (Returns True) @ Throws e # replicate m (Returns False), store st a f')"
    using Do_n_Suc_await [where body = body, OF Suc.prems(1-3) step, of "Suc (k + m)"] run same
    by simp
  with f' show ?case by auto
qed


lemma Next_n_Suc_yield:
  assumes "deref st g = Frame a f" "\<not> finished f" "exc (promise f) = None"
    and "body (point f) = CoYield v s"
  shows "Next_n body (Suc n) st g =
           (Returns v # fst (Next_n body n (store st a (f\<lparr>promise := (promise f)\<lparr>val := v\<rparr>, point := s\<rparr>)) g),
            snd (Next_n body n (store st a (f\<lparr>promise := (promise f)\<lparr>val := v\<rparr>, point := s\<rparr>)) g))"
  using Next_yield [where body = body, OF assms] by (simp add: case_prod_beta)

lemma PickNext_finished:
  assumes "deref st g = Frame a f" "finished f"
  shows "PickNext moved body st g = (Throws (Exc errmsg), st)"
  using assms by (simp add: PickNext_def)

lemma Next_n_throws_state:
  assumes "deref st g = Frame a f" "\<not> finished f" "exc (promise f) = None"
    and "yields_then_throws body (point f) vs e"
  shows "\<exists>f'. Next_n body (Suc (length vs + m)) st g
                 = (map Returns vs @ Throws e # replicate m (Throws (Exc errmsg)), store st a f')
              \<and> finished f' \<and> exc (promise f') = Some e"
  using assms
proof (induction vs arbitrary: st f)
  case Nil
  then have step: "body (point f) = GThrow e"
    by (auto split: generator_step.splits)
  let ?f = "f\<lparr>promise := (promise f)\<lparr>exc := Some e\<rparr>, finished := True\<rparr>"
  have d: "deref (store st a ?f) g = Frame a ?f"
    using Nil.prems(1) by (rule deref_store)
  have fin: "finished ?f" by simp
  have "Next_n body (Suc m) st g = (Throws e # replicate m (Throws (Exc errmsg)), store st a ?f)"
    using Next_throw [where body = body, OF Nil.prems(1,2) step]
      Next_n_finished [OF d fin, of body m]
    by simp
  then show ?case by auto
next
  case (Cons v vs)
  from Cons.prems(4) obtain s where
    step: "body (point f) = CoYield v s" and rest: "yields_then_throws body s vs e"
    by (auto split: generator_step.splits)
  let ?f = "f\<lparr>promise := (promise f)\<lparr>val := v\<rparr>, point := s\<rparr>"
  let ?st = "store st a ?f"
  have d: "deref ?st g = Frame a ?f"
    using Cons.prems(1) by (rule deref_store)
  obtain f' where
    run: "Next_n body (Suc (length vs + m)) ?st g
            = (map Returns vs @ Throws e # replicate m (Throws (Exc errmsg)), store ?st a f')"
    and f': "finished f'" "exc (promise f') = Some e"
    using Cons.IH [OF d] Cons.prems(2,3) rest by auto
  have same: "store ?st a f' = store st a f'"
    by (simp add: store_def)
  have "Next_n body (Suc (length (v # vs) + m)) st g
          = (map Returns (v # vs) @ Throws e # replicate m (Throws (Exc errmsg)), store st a f')"
    using Next_n_Suc_yield [where body = body, OF Cons.prems(1-3) step, of "Suc (length vs + m)"]
      run same
    by simp
  with f' show ?case by blast
qed

lemma Pick_finished:
  assumes "deref st r = Frame a f" "finished f"
  shows "fst (Pick moved st r) = Returns (val (promise f))"
  using assms by (simp add: Pick_def)

text \<open>
  C2. A Routine that is suspended and whose body, from there, reaches \<^verbatim>\<open>co_await CoSuspend{}\<close>
  \<open>k\<close> times and then \<^verbatim>\<open>co_return v\<close>: the first \<open>k\<close> calls of \<^verbatim>\<open>Do\<close> return true, and as long as
  at most \<open>k\<close> calls were made \<^verbatim>\<open>Get\<close> fails its \<^verbatim>\<open>ASSERT(co.done())\<close>; call \<open>k + 1\<close> and every
  later call return false, and after each of them \<^verbatim>\<open>Get\<close> returns \<open>v\<close>. With \<open>k = 0\<close> this is
  the body that returns at once.
\<close>

theorem C2_Do_true_k_times_then_false_and_Get:
  assumes "deref st r = Frame a f" "\<not> finished f" "exc (promise f) = None"
    and "suspends_then_returns body (point f) k v"
    and "j \<le> k"
  shows "fst (Do_n body j st r) = replicate j (Returns True)
         \<and> Get (snd (Do_n body j st r)) r = AssertFailed
         \<and> fst (Do_n body (Suc (k + m)) st r)
             = replicate k (Returns True) @ replicate (Suc m) (Returns False)
         \<and> Get (snd (Do_n body (Suc (k + m)) st r)) r = Returns v"
  using Do_n_returns [where body = body, OF assms(1-4)] assms(5) by blast

lemma live_fresh:
  "deref (fresh d s0) 0 = Frame 0 (initial_frame d s0)
   \<and> \<not> finished (initial_frame d s0) \<and> exc (promise (initial_frame d s0)) = None"
  by (simp add: deref_fresh) (simp add: initial_frame_def)

theorem C2_witness:
  "deref (fresh 0 0) 0 = Frame 0 (initial_frame (0::int) (0::nat))
   \<and> \<not> finished (initial_frame (0::int) (0::nat))
   \<and> exc (promise (initial_frame (0::int) (0::nat))) = None
   \<and> suspends_then_returns StepRoutine (point (initial_frame (0::int) (0::nat))) 2 7
   \<and> (2::nat) \<le> 2
   \<and> fst (Do_n StepRoutine 2 (fresh 0 0) 0) = replicate 2 (Returns True)
   \<and> Get (snd (Do_n StepRoutine 2 (fresh 0 0) 0)) 0 = AssertFailed
   \<and> fst (Do_n StepRoutine (Suc (2 + 1)) (fresh 0 0) 0)
       = replicate 2 (Returns True) @ replicate (Suc 1) (Returns False)
   \<and> Get (snd (Do_n StepRoutine (Suc (2 + 1)) (fresh 0 0) 0)) 0 = Returns 7"
proof -
  have h1: "deref (fresh 0 0) 0 = Frame 0 (initial_frame (0::int) (0::nat))"
    and h2: "\<not> finished (initial_frame (0::int) (0::nat))"
    and h3: "exc (promise (initial_frame (0::int) (0::nat))) = None"
    using live_fresh [of "0::int" "0::nat"] by simp_all
  have h4: "suspends_then_returns StepRoutine (point (initial_frame (0::int) (0::nat))) 2 7"
    by (simp add: initial_frame_def StepRoutine_def numeral_2_eq_2)
  have h5: "(2::nat) \<le> 2" by simp
  from h1 h2 h3 h4 h5
    C2_Do_true_k_times_then_false_and_Get [where body = StepRoutine, OF h1 h2 h3 h4 h5, of 1]
  show ?thesis by blast
qed

text \<open>
  C3. On a Generator that is suspended, \<^verbatim>\<open>Next\<close> resumes the frame once. When the body throws
  \<open>e\<close>, \<^verbatim>\<open>Next\<close> throws \<open>e\<close>; when the body returns, \<^verbatim>\<open>Next\<close> throws
  \<^verbatim>\<open>Exc("Generator exhausted")\<close>, whatever value was stored before; when the body yields
  \<open>v\<close>, \<^verbatim>\<open>Next\<close> returns \<open>v\<close>. \<^verbatim>\<open>PickNext\<close> has the same outcome in each case, and the same
  state except that after a yield the stored value is the moved-from one.
\<close>

theorem C3_Next_and_PickNext_on_a_suspended_generator:
  assumes "deref st g = Frame a f" "\<not> finished f" "exc (promise f) = None"
  shows "Next body st g =
           ((case body (point f) of
               GThrow e \<Rightarrow> Throws e
             | CoReturnVoid \<Rightarrow> Throws (Exc errmsg)
             | CoYield v s \<Rightarrow> Returns v),
            store st a (resume_generator body f))
         \<and> fst (PickNext moved body st g) = fst (Next body st g)
         \<and> snd (PickNext moved body st g) =
             (case body (point f) of
                GThrow e \<Rightarrow> snd (Next body st g)
              | CoReturnVoid \<Rightarrow> snd (Next body st g)
              | CoYield v s \<Rightarrow>
                  store st a (f\<lparr>promise := (promise f)\<lparr>val := moved v\<rparr>, point := s\<rparr>))"
proof (cases f)
  case (fields p s b)
  with assms show ?thesis
    by (cases "body s")
       (simp_all add: Next_def PickNext_def resume_generator_def Rethrow_def
          yield_value_def unhandled_exception_def)
qed


theorem C3_witness:
  "deref (snd (Next ThrowGenerator (fresh 0 0) 0)) 0
     = Frame 0 \<lparr>promise = \<lparr>exc = None, val = 1\<rparr>, point = 1, finished = False\<rparr>
   \<and> \<not> finished \<lparr>promise = \<lparr>exc = None, val = 1::int\<rparr>, point = 1::nat, finished = False\<rparr>
   \<and> exc (promise \<lparr>promise = \<lparr>exc = None, val = 1::int\<rparr>, point = 1::nat, finished = False\<rparr>) = None
   \<and> fst (Next ThrowGenerator (snd (Next ThrowGenerator (fresh 0 0) 0)) 0) = Throws (Exc ''gen boom'')
   \<and> fst (PickNext (\<lambda>v. v) ThrowGenerator (snd (Next ThrowGenerator (fresh 0 0) 0)) 0)
       = Throws (Exc ''gen boom'')"
proof -
  let ?f = "\<lparr>promise = \<lparr>exc = None, val = 1::int\<rparr>, point = 1::nat, finished = False\<rparr>"
  let ?st = "snd (Next ThrowGenerator (fresh 0 0) 0)"
  have h1: "deref ?st 0 = Frame 0 ?f"
    by (simp add: Next_def deref_fresh deref_def store_def fresh_def spawn_def empty_state_def
        initial_frame_def resume_generator_def ThrowGenerator_def Rethrow_def yield_value_def)
  have h2: "\<not> finished ?f" by simp
  have h3: "exc (promise ?f) = None" by simp
  from C3_Next_and_PickNext_on_a_suspended_generator
         [where body = ThrowGenerator and moved = "\<lambda>v. v", OF h1 h2 h3]
  have "fst (Next ThrowGenerator ?st 0) = Throws (Exc ''gen boom'')
        \<and> fst (PickNext (\<lambda>v. v) ThrowGenerator ?st 0) = Throws (Exc ''gen boom'')"
    by (simp add: ThrowGenerator_def)
  with h1 h2 h3 show ?thesis by blast
qed

text \<open>
  C4. A Routine that is suspended and whose body, from there, suspends \<open>k\<close> times and then
  throws \<open>e\<close>: call \<open>k + 1\<close> of \<^verbatim>\<open>Do\<close>, the one whose resume ran into the throw, throws \<open>e\<close>
  and leaves the coroutine done with \<open>e\<close> stored; each of the \<open>m\<close> calls after it returns
  false, for every \<open>m\<close>, so \<open>e\<close> reaches the caller once.
\<close>

theorem C4_Do_rethrows_once_then_returns_false:
  assumes "deref st r = Frame a f" "\<not> finished f" "exc (promise f) = None"
    and "suspends_then_throws body (point f) k e"
  shows "fst (Do_n body (Suc (k + m)) st r)
           = replicate k (Returns True) @ Throws e # replicate m (Returns False)
         \<and> (\<exists>f'. deref (snd (Do_n body (Suc (k + m)) st r)) r = Frame a f'
                 \<and> finished f' \<and> exc (promise f') = Some e)"
proof -
  obtain f' where
    run: "Do_n body (Suc (k + m)) st r
            = (replicate k (Returns True) @ Throws e # replicate m (Returns False), store st a f')"
    and f': "finished f'" "promise f' = (promise f)\<lparr>exc := Some e\<rparr>"
    using Do_n_throws [where body = body, OF assms] by blast
  have "deref (store st a f') r = Frame a f'"
    using assms(1) by (rule deref_store)
  with run f' show ?thesis by simp
qed

theorem C4_witness:
  "deref (fresh 0 0) 0 = Frame 0 (initial_frame (0::int) (0::nat))
   \<and> \<not> finished (initial_frame (0::int) (0::nat))
   \<and> exc (promise (initial_frame (0::int) (0::nat))) = None
   \<and> suspends_then_throws ThrowRoutine (point (initial_frame (0::int) (0::nat))) 1 (Exc ''boom'')
   \<and> fst (Do_n ThrowRoutine (Suc (1 + 2)) (fresh 0 0) 0)
       = replicate 1 (Returns True) @ Throws (Exc ''boom'') # replicate 2 (Returns False)"
proof -
  have h1: "deref (fresh 0 0) 0 = Frame 0 (initial_frame (0::int) (0::nat))"
    and h2: "\<not> finished (initial_frame (0::int) (0::nat))"
    and h3: "exc (promise (initial_frame (0::int) (0::nat))) = None"
    using live_fresh [of "0::int" "0::nat"] by simp_all
  have h4: "suspends_then_throws ThrowRoutine (point (initial_frame (0::int) (0::nat))) 1 (Exc ''boom'')"
    by (simp add: initial_frame_def ThrowRoutine_def)
  from h1 h2 h3 h4
    C4_Do_rethrows_once_then_returns_false [where body = ThrowRoutine, OF h1 h2 h3 h4, of 2]
  show ?thesis by blast
qed

text \<open>
  C7, as stated, fails: \<^verbatim>\<open>ThrowRoutine\<close> of the tests suspends once and then throws. After the
  second \<^verbatim>\<open>Do\<close> has thrown, \<^verbatim>\<open>Get\<close> passes both of its assertions and returns the
  value-initialised \<^verbatim>\<open>int\<close> of the promise, 0.
\<close>

theorem C7_counterexample:
  "fst (Do_n ThrowRoutine 2 (fresh 0 0) 0) = [Returns True, Throws (Exc ''boom'')]
   \<and> Get (snd (Do_n ThrowRoutine 2 (fresh 0 0) 0)) 0 = Returns 0"
proof -
  have h1: "deref (fresh 0 0) 0 = Frame 0 (initial_frame (0::int) (0::nat))"
    and h2: "\<not> finished (initial_frame (0::int) (0::nat))"
    and h3: "exc (promise (initial_frame (0::int) (0::nat))) = None"
    using live_fresh [of "0::int" "0::nat"] by simp_all
  have h4: "suspends_then_throws ThrowRoutine (point (initial_frame (0::int) (0::nat))) 1 (Exc ''boom'')"
    by (simp add: initial_frame_def ThrowRoutine_def)
  obtain f' where
    run: "Do_n ThrowRoutine (Suc (1 + 0)) (fresh 0 0) 0
            = (replicate 1 (Returns True) @ Throws (Exc ''boom'') # replicate 0 (Returns False),
               store (fresh 0 0) 0 f')"
    and f': "finished f'" "promise f' = (promise (initial_frame (0::int) (0::nat)))\<lparr>exc := Some (Exc ''boom'')\<rparr>"
    using Do_n_throws [where body = ThrowRoutine, OF h1 h2 h3 h4, of 0] by blast
  have two: "Suc (1 + 0) = (2::nat)" by simp
  have d: "deref (store (fresh 0 0) 0 f') 0 = Frame 0 f'"
    using h1 by (rule deref_store)
  have "Get (store (fresh 0 0) 0 f') 0 = Returns 0"
    using Get_finished [OF d f'(1)] f'(2) by (simp add: initial_frame_def)
  with run show ?thesis unfolding two by simp
qed

text \<open>
  C7, amended. When the body throws \<open>e\<close> on a resume, the call that made that resume throws
  \<open>e\<close> and the coroutine is done from then on. For a Routine, every later \<^verbatim>\<open>Do\<close> returns
  false, and \<^verbatim>\<open>Get\<close> and \<^verbatim>\<open>Pick\<close>, which assert only \<^verbatim>\<open>co\<close> and \<^verbatim>\<open>co.done()\<close>, return the value
  the promise held before the routine was driven (the body stored none). For a Generator,
  every later \<^verbatim>\<open>Next\<close> and \<^verbatim>\<open>PickNext\<close> throws \<^verbatim>\<open>Exc("Generator exhausted")\<close> and returns no
  value.
\<close>

theorem C7_failure_propagates_and_Get_returns_the_untouched_value:
  "(deref st r = Frame a f \<and> \<not> finished f \<and> exc (promise f) = None
      \<and> suspends_then_throws rbody (point f) k e
    \<longrightarrow> fst (Do_n rbody (Suc (k + m)) st r)
          = replicate k (Returns True) @ Throws e # replicate m (Returns False)
        \<and> Get (snd (Do_n rbody (Suc (k + m)) st r)) r = Returns (val (promise f))
        \<and> fst (Pick moved (snd (Do_n rbody (Suc (k + m)) st r)) r) = Returns (val (promise f)))
   \<and> (deref st' g = Frame b h \<and> \<not> finished h \<and> exc (promise h) = None
        \<and> yields_then_throws gbody (point h) vs e'
      \<longrightarrow> fst (Next_n gbody (Suc (length vs + n)) st' g)
            = map Returns vs @ Throws e' # replicate n (Throws (Exc errmsg))
          \<and> fst (PickNext moved gbody (snd (Next_n gbody (Suc (length vs + n)) st' g)) g)
              = Throws (Exc errmsg))"
proof (intro conjI impI)
  assume A: "deref st r = Frame a f \<and> \<not> finished f \<and> exc (promise f) = None
      \<and> suspends_then_throws rbody (point f) k e"
  then obtain f' where
    run: "Do_n rbody (Suc (k + m)) st r
            = (replicate k (Returns True) @ Throws e # replicate m (Returns False), store st a f')"
    and f': "finished f'" "promise f' = (promise f)\<lparr>exc := Some e\<rparr>"
    using Do_n_throws [where body = rbody and st = st and r = r and a = a and f = f and k = k
        and e = e and m = m] by blast
  have d: "deref (store st a f') r = Frame a f'"
    using A deref_store by blast
  show "fst (Do_n rbody (Suc (k + m)) st r)
          = replicate k (Returns True) @ Throws e # replicate m (Returns False)"
    using run by simp
  show "Get (snd (Do_n rbody (Suc (k + m)) st r)) r = Returns (val (promise f))"
    using run Get_finished [OF d f'(1)] f'(2) by simp
  show "fst (Pick moved (snd (Do_n rbody (Suc (k + m)) st r)) r) = Returns (val (promise f))"
    using run Pick_finished [OF d f'(1)] f'(2) by simp
next
  assume B: "deref st' g = Frame b h \<and> \<not> finished h \<and> exc (promise h) = None
        \<and> yields_then_throws gbody (point h) vs e'"
  then obtain h' where
    run: "Next_n gbody (Suc (length vs + n)) st' g
            = (map Returns vs @ Throws e' # replicate n (Throws (Exc errmsg)), store st' b h')"
    and h': "finished h'"
    using Next_n_throws_state [where body = gbody and st = st' and g = g and a = b and f = h
        and vs = vs and e = e' and m = n] by blast
  have d: "deref (store st' b h') g = Frame b h'"
    using B deref_store by blast
  show "fst (Next_n gbody (Suc (length vs + n)) st' g)
            = map Returns vs @ Throws e' # replicate n (Throws (Exc errmsg))"
    using run by simp
  show "fst (PickNext moved gbody (snd (Next_n gbody (Suc (length vs + n)) st' g)) g)
              = Throws (Exc errmsg)"
    using run PickNext_finished [OF d h'] by simp
qed

theorem C7_witness:
  "(deref (fresh 0 0) 0 = Frame 0 (initial_frame (0::int) (0::nat))
    \<and> \<not> finished (initial_frame (0::int) (0::nat))
    \<and> exc (promise (initial_frame (0::int) (0::nat))) = None
    \<and> suspends_then_throws ThrowRoutine (point (initial_frame (0::int) (0::nat))) 1 (Exc ''boom''))
   \<and> yields_then_throws ThrowGenerator (point (initial_frame (0::int) (0::nat))) [1] (Exc ''gen boom'')
   \<and> fst (Do_n ThrowRoutine (Suc (1 + 1)) (fresh 0 0) 0)
       = replicate 1 (Returns True) @ Throws (Exc ''boom'') # replicate 1 (Returns False)
   \<and> Get (snd (Do_n ThrowRoutine (Suc (1 + 1)) (fresh 0 0) 0)) 0
       = Returns (val (promise (initial_frame (0::int) (0::nat))))
   \<and> fst (Next_n ThrowGenerator (Suc (length [1::int] + 2)) (fresh 0 0) 0)
       = map Returns [1] @ Throws (Exc ''gen boom'') # replicate 2 (Throws (Exc errmsg))"
proof -
  have live: "deref (fresh 0 0) 0 = Frame 0 (initial_frame (0::int) (0::nat))
    \<and> \<not> finished (initial_frame (0::int) (0::nat))
    \<and> exc (promise (initial_frame (0::int) (0::nat))) = None"
    by (rule live_fresh)
  have r: "suspends_then_throws ThrowRoutine (point (initial_frame (0::int) (0::nat))) 1 (Exc ''boom'')"
    by (simp add: initial_frame_def ThrowRoutine_def)
  have g: "yields_then_throws ThrowGenerator (point (initial_frame (0::int) (0::nat))) [1] (Exc ''gen boom'')"
    by (simp add: initial_frame_def ThrowGenerator_def)
  from live r g
    C7_failure_propagates_and_Get_returns_the_untouched_value
      [where rbody = ThrowRoutine and st = "fresh 0 0" and r = 0 and a = 0
         and f = "initial_frame (0::int) (0::nat)" and k = 1 and e = "Exc ''boom''" and m = 1
         and gbody = ThrowGenerator and st' = "fresh 0 0" and g = 0 and b = 0
         and h = "initial_frame (0::int) (0::nat)" and vs = "[1]" and e' = "Exc ''gen boom''"
         and n = 2 and moved = "\<lambda>v. v"]
  show ?thesis by blast
qed

lemma stored_exception_store:
  "deref st g = Frame a f \<Longrightarrow> stored_exception (store st a f') g = exc (promise f')"
  by (simp add: stored_exception_def deref_store)

lemma for_loop_end: "for_loop body n st \<lparr>gen = None\<rparr> = ([], Some (Returns ()), st)"
  by (simp add: for_loop.simps operator_eq_def)

lemma operator_incr_live:
  assumes "deref st g = Frame a f" "\<not> finished f"
  shows "operator_incr body st \<lparr>gen = Some g\<rparr> =
           (case Rethrow (resume_generator body f) of
              Some e \<Rightarrow> Throws e
            | None \<Rightarrow> Returns \<lparr>gen = (if finished (resume_generator body f) then None else Some g)\<rparr>,
            store st a (resume_generator body f))"
  using assms by (simp add: operator_incr_def Let_def split: option.splits)

lemma Next_live:
  assumes "deref st g = Frame a f" "\<not> finished f"
  shows "Next body st g =
           (case Rethrow (resume_generator body f) of
              Some e \<Rightarrow> Throws e
            | None \<Rightarrow> if finished (resume_generator body f) then Throws (Exc errmsg)
                      else Returns (val (promise (resume_generator body f))),
            store st a (resume_generator body f))"
  using assms by (simp add: Next_def Let_def split: option.splits)

lemma begin_iter_live:
  assumes "deref st g = Frame a f" "\<not> finished f"
  shows "begin_iter body st g =
           (case Rethrow (resume_generator body f) of
              Some e \<Rightarrow> Throws e
            | None \<Rightarrow> Returns \<lparr>gen = (if finished (resume_generator body f) then None else Some g)\<rparr>,
            store st a (resume_generator body f))"
  using assms by (simp add: begin_iter_def Iterator_def Let_def split: option.splits)

lemma for_loop_as_Next_loop:
  assumes "deref st g = Frame a f" "\<not> finished f"
  shows "for_loop body n st \<lparr>gen = Some g\<rparr> =
           (case as_iteration (Next_loop body n st g) g of
              (vs, stop, st') \<Rightarrow> (val (promise f) # vs, stop, st'))"
  using assms
proof (induction n arbitrary: st f)
  case 0
  then show ?case
    by (simp add: for_loop.simps operator_eq_def operator_deref_def as_iteration_def)
next
  case (Suc n)
  let ?f = "resume_generator body f"
  let ?st = "store st a ?f"
  have d: "deref ?st g = Frame a ?f"
    using Suc.prems(1) by (rule deref_store)
  have unfold: "for_loop body (Suc n) st \<lparr>gen = Some g\<rparr> =
      (case operator_incr body st \<lparr>gen = Some g\<rparr> of
         (Returns it1, st1) \<Rightarrow>
           (case for_loop body n st1 it1 of (vs, stop, st2) \<Rightarrow> (val (promise f) # vs, stop, st2))
       | (Throws e, st1) \<Rightarrow> ([val (promise f)], Some (Throws e), st1)
       | (AssertFailed, st1) \<Rightarrow> ([val (promise f)], Some AssertFailed, st1)
       | (UndefinedBehaviour, st1) \<Rightarrow> ([val (promise f)], Some UndefinedBehaviour, st1))"
    using Suc.prems(1) by (subst for_loop.simps) (simp add: operator_eq_def operator_deref_def)
  show ?case
  proof (cases "Rethrow ?f")
    case (Some e)
    then have "stored_exception ?st g = Some e"
      using stored_exception_store [OF Suc.prems(1)] by (simp add: Rethrow_def)
    with Some show ?thesis
      unfolding unfold
      by (simp add: operator_incr_live [OF Suc.prems(1,2)] Next_live [OF Suc.prems(1,2)]
          as_iteration_def)
  next
    case None
    then have no: "stored_exception ?st g = None"
      using stored_exception_store [OF Suc.prems(1)] by (simp add: Rethrow_def)
    show ?thesis
    proof (cases "finished ?f")
      case True
      with None no show ?thesis
        unfolding unfold
        by (simp add: operator_incr_live [OF Suc.prems(1,2)] Next_live [OF Suc.prems(1,2)]
            as_iteration_def for_loop_end)
    next
      case False
      with None show ?thesis
        unfolding unfold
        by (simp add: operator_incr_live [OF Suc.prems(1,2)] Next_live [OF Suc.prems(1,2)]
            Suc.IH [OF d False] as_iteration_def case_prod_beta)
    qed
  qed
qed

lemma range_for_as_Next_loop:
  assumes "deref st g = Frame a f" "\<not> finished f"
  shows "range_for body n st g = as_iteration (Next_loop body n st g) g"
proof (cases n)
  case 0
  then show ?thesis by (simp add: range_for_def as_iteration_def)
next
  case (Suc m)
  let ?f = "resume_generator body f"
  let ?st = "store st a ?f"
  have d: "deref ?st g = Frame a ?f"
    using assms(1) by (rule deref_store)
  show ?thesis
  proof (cases "Rethrow ?f")
    case (Some e)
    then have "stored_exception ?st g = Some e"
      using stored_exception_store [OF assms(1)] by (simp add: Rethrow_def)
    with Some Suc show ?thesis
      by (simp add: range_for_def begin_iter_live [OF assms] Next_live [OF assms] as_iteration_def)
  next
    case None
    then have no: "stored_exception ?st g = None"
      using stored_exception_store [OF assms(1)] by (simp add: Rethrow_def)
    show ?thesis
    proof (cases "finished ?f")
      case True
      with None no Suc show ?thesis
        by (simp add: range_for_def begin_iter_live [OF assms] Next_live [OF assms]
            as_iteration_def for_loop_end)
    next
      case False
      with None Suc show ?thesis
        by (simp add: range_for_def begin_iter_live [OF assms] Next_live [OF assms]
            for_loop_as_Next_loop [OF d False] as_iteration_def case_prod_beta)
    qed
  qed
qed


lemma Next_loop_stop:
  assumes "deref st g = Frame a f" "\<not> finished f"
  shows "(case Next_loop body n st g of
            (vs, stop, st') \<Rightarrow>
              stop = None
              \<or> stop = Some (Throws (Exc errmsg)) \<and> stored_exception st' g = None
              \<or> (\<exists>e. stop = Some (Throws e) \<and> stored_exception st' g = Some e))"
  using assms
proof (induction n arbitrary: st f)
  case 0
  then show ?case by simp
next
  case (Suc n)
  let ?f = "resume_generator body f"
  let ?st = "store st a ?f"
  have d: "deref ?st g = Frame a ?f"
    using Suc.prems(1) by (rule deref_store)
  have se: "stored_exception ?st g = Rethrow ?f"
    using stored_exception_store [OF Suc.prems(1)] by (simp add: Rethrow_def)
  show ?case
  proof (cases "Rethrow ?f")
    case (Some e)
    with se show ?thesis
      by (simp add: Next_live [OF Suc.prems(1,2)])
  next
    case None
    show ?thesis
    proof (cases "finished ?f")
      case True
      with None se show ?thesis
        by (simp add: Next_live [OF Suc.prems(1,2)])
    next
      case False
      with None Suc.IH [OF d False] show ?thesis
        by (simp add: Next_live [OF Suc.prems(1,2)] case_prod_beta)
    qed
  qed
qed

lemma Next_loop_yields:
  assumes "deref st g = Frame a f" "\<not> finished f" "exc (promise f) = None"
    and "yields_then_completes body (point f) vs"
  shows "\<exists>st'. Next_loop body (Suc (length vs + m)) st g = (vs, Some (Throws (Exc errmsg)), st')
               \<and> stored_exception st' g = None"
  using assms
proof (induction vs arbitrary: st f)
  case Nil
  then have step: "body (point f) = CoReturnVoid"
    by (simp split: generator_step.splits)
  have "stored_exception (store st a (f\<lparr>finished := True\<rparr>)) g = None"
    using stored_exception_store [OF Nil.prems(1)] Nil.prems(3) by simp
  then show ?case
    using Next_complete [where body = body, OF Nil.prems(1-3) step] by simp
next
  case (Cons v vs)
  from Cons.prems(4) obtain s where
    step: "body (point f) = CoYield v s" and rest: "yields_then_completes body s vs"
    by (auto split: generator_step.splits)
  let ?f = "f\<lparr>promise := (promise f)\<lparr>val := v\<rparr>, point := s\<rparr>"
  have d: "deref (store st a ?f) g = Frame a ?f"
    using Cons.prems(1) by (rule deref_store)
  obtain st' where
    "Next_loop body (Suc (length vs + m)) (store st a ?f) g = (vs, Some (Throws (Exc errmsg)), st')"
    "stored_exception st' g = None"
    using Cons.IH [OF d] Cons.prems(2,3) rest by auto
  then show ?case
    using Next_yield [where body = body, OF Cons.prems(1-3) step] by simp
qed

lemma Next_loop_throws:
  assumes "deref st g = Frame a f" "\<not> finished f" "exc (promise f) = None"
    and "yields_then_throws body (point f) vs e"
  shows "\<exists>st'. Next_loop body (Suc (length vs + m)) st g = (vs, Some (Throws e), st')
               \<and> stored_exception st' g = Some e"
  using assms
proof (induction vs arbitrary: st f)
  case Nil
  then have step: "body (point f) = GThrow e"
    by (auto split: generator_step.splits)
  have "stored_exception (store st a (f\<lparr>promise := (promise f)\<lparr>exc := Some e\<rparr>, finished := True\<rparr>)) g
          = Some e"
    using stored_exception_store [OF Nil.prems(1)] by simp
  then show ?case
    using Next_throw [where body = body, OF Nil.prems(1,2) step] by simp
next
  case (Cons v vs)
  from Cons.prems(4) obtain s where
    step: "body (point f) = CoYield v s" and rest: "yields_then_throws body s vs e"
    by (auto split: generator_step.splits)
  let ?f = "f\<lparr>promise := (promise f)\<lparr>val := v\<rparr>, point := s\<rparr>"
  have d: "deref (store st a ?f) g = Frame a ?f"
    using Cons.prems(1) by (rule deref_store)
  obtain st' where
    "Next_loop body (Suc (length vs + m)) (store st a ?f) g = (vs, Some (Throws e), st')"
    "stored_exception st' g = Some e"
    using Cons.IH [OF d] Cons.prems(2,3) rest by auto
  then show ?case
    using Next_yield [where body = body, OF Cons.prems(1-3) step] by simp
qed

lemma begin_iter_throw:
  assumes "deref st g = Frame a f" "\<not> finished f" "body (point f) = GThrow e"
  shows "begin_iter body st g =
           (Throws e, store st a (f\<lparr>promise := (promise f)\<lparr>exc := Some e\<rparr>, finished := True\<rparr>))"
  using assms
  by (simp add: begin_iter_def Iterator_def resume_generator_def Rethrow_def
      unhandled_exception_def)

lemma operator_incr_throw:
  assumes "deref st g = Frame a f" "\<not> finished f" "body (point f) = GThrow e"
  shows "operator_incr body st \<lparr>gen = Some g\<rparr> =
           (Throws e, store st a (f\<lparr>promise := (promise f)\<lparr>exc := Some e\<rparr>, finished := True\<rparr>))"
  using assms
  by (simp add: operator_incr_def resume_generator_def Rethrow_def unhandled_exception_def)

text \<open>
  For a Generator that is suspended when \<^verbatim>\<open>begin()\<close> is called (one just created is), the
  range-based for loop and a loop of \<^verbatim>\<open>Next\<close> calls, each allowed \<open>n\<close> resumes, see the same
  values in the same order and leave the same state, and they stop at the same point:
  either both used up the \<open>n\<close> resumes; or \<^verbatim>\<open>Next\<close> threw \<^verbatim>\<open>Exc("Generator exhausted")\<close> with no
  exception stored in the promise, and the for loop reached \<^verbatim>\<open>end()\<close> and threw nothing; or
  the body threw \<open>e\<close> and both loops were left by \<open>e\<close>. When the body yields \<open>ws\<close> and then
  completes, \<open>length ws + 1\<close> resumes are enough and the for loop ends at the sentinel
  having seen exactly \<open>ws\<close>. When the body yields \<open>ws\<close> and then throws \<open>e\<close>, the for loop has
  seen \<open>ws\<close> and is left by \<open>e\<close>, not ended; a throw in the resume of \<^verbatim>\<open>begin()\<close> or of
  \<^verbatim>\<open>operator++\<close> leaves that call by \<open>e\<close>.
\<close>

lemma range_for_sees_what_Next_returns:
  assumes "deref st g = Frame a f" "\<not> finished f"
  shows "((\<exists>vs st'. Next_loop body n st g = (vs, None, st')
                  \<and> range_for body n st g = (vs, None, st'))
          \<or> (\<exists>vs st'. Next_loop body n st g = (vs, Some (Throws (Exc errmsg)), st')
                  \<and> stored_exception st' g = None
                  \<and> range_for body n st g = (vs, Some (Returns ()), st'))
          \<or> (\<exists>vs st' e. Next_loop body n st g = (vs, Some (Throws e), st')
                  \<and> stored_exception st' g = Some e
                  \<and> range_for body n st g = (vs, Some (Throws e), st')))
         \<and> (exc (promise f) = None \<and> yields_then_completes body (point f) ws
              \<longrightarrow> (\<exists>st'. Next_loop body (Suc (length ws + m)) st g
                              = (ws, Some (Throws (Exc errmsg)), st')
                        \<and> range_for body (Suc (length ws + m)) st g
                              = (ws, Some (Returns ()), st')))
         \<and> (exc (promise f) = None \<and> yields_then_throws body (point f) ws e
              \<longrightarrow> (\<exists>st'. Next_loop body (Suc (length ws + m)) st g
                              = (ws, Some (Throws e), st')
                        \<and> range_for body (Suc (length ws + m)) st g
                              = (ws, Some (Throws e), st')))
         \<and> (body (point f) = GThrow e
              \<longrightarrow> fst (begin_iter body st g) = Throws e
                \<and> fst (operator_incr body st \<lparr>gen = Some g\<rparr>) = Throws e)"
proof (intro conjI impI)
  have eq: "range_for body k st g = as_iteration (Next_loop body k st g) g" for k
    using assms by (rule range_for_as_Next_loop)
  obtain vs stop st' where run: "Next_loop body n st g = (vs, stop, st')"
    by (cases "Next_loop body n st g") auto
  with Next_loop_stop [OF assms, of body n] have
    "stop = None
       \<or> stop = Some (Throws (Exc errmsg)) \<and> stored_exception st' g = None
       \<or> (\<exists>e. stop = Some (Throws e) \<and> stored_exception st' g = Some e)"
    by simp
  with run show "(\<exists>vs st'. Next_loop body n st g = (vs, None, st')
                  \<and> range_for body n st g = (vs, None, st'))
          \<or> (\<exists>vs st'. Next_loop body n st g = (vs, Some (Throws (Exc errmsg)), st')
                  \<and> stored_exception st' g = None
                  \<and> range_for body n st g = (vs, Some (Returns ()), st'))
          \<or> (\<exists>vs st' e. Next_loop body n st g = (vs, Some (Throws e), st')
                  \<and> stored_exception st' g = Some e
                  \<and> range_for body n st g = (vs, Some (Throws e), st'))"
    unfolding eq by (auto simp: as_iteration_def)
  {
    assume "exc (promise f) = None \<and> yields_then_completes body (point f) ws"
    then obtain st' where
      "Next_loop body (Suc (length ws + m)) st g = (ws, Some (Throws (Exc errmsg)), st')"
      "stored_exception st' g = None"
      using Next_loop_yields [where body = body, OF assms] by blast
    then show "\<exists>st'. Next_loop body (Suc (length ws + m)) st g
                                = (ws, Some (Throws (Exc errmsg)), st')
                          \<and> range_for body (Suc (length ws + m)) st g
                                = (ws, Some (Returns ()), st')"
      unfolding eq by (simp add: as_iteration_def)
  }
  {
    assume "exc (promise f) = None \<and> yields_then_throws body (point f) ws e"
    then obtain st' where
      "Next_loop body (Suc (length ws + m)) st g = (ws, Some (Throws e), st')"
      "stored_exception st' g = Some e"
      using Next_loop_throws [where body = body, OF assms] by blast
    then show "\<exists>st'. Next_loop body (Suc (length ws + m)) st g
                                = (ws, Some (Throws e), st')
                          \<and> range_for body (Suc (length ws + m)) st g
                                = (ws, Some (Throws e), st')"
      unfolding eq by (simp add: as_iteration_def)
  }
  {
    assume t: "body (point f) = GThrow e"
    show "fst (begin_iter body st g) = Throws e"
      using begin_iter_throw [where body = body, OF assms t] by simp
    show "fst (operator_incr body st \<lparr>gen = Some g\<rparr>) = Throws e"
      using operator_incr_throw [where body = body, OF assms t] by simp
  }
qed

lemma RangeGenerator_yields:
  "yields_then_completes (RangeGenerator 4) 0 [0, 1, 2, 3]"
  by (simp add: RangeGenerator_def)

lemma range_for_RangeGenerator_4:
  "deref (fresh 0 0) 0 = Frame 0 (initial_frame (0::int) (0::int))
   \<and> \<not> finished (initial_frame (0::int) (0::int))
   \<and> exc (promise (initial_frame (0::int) (0::int))) = None
   \<and> yields_then_completes (RangeGenerator 4) (point (initial_frame (0::int) (0::int))) [0, 1, 2, 3]
   \<and> (\<exists>st'. Next_loop (RangeGenerator 4) (Suc (length [0, 1, 2, 3 :: int] + 5)) (fresh 0 0) 0
                 = ([0, 1, 2, 3], Some (Throws (Exc errmsg)), st')
            \<and> range_for (RangeGenerator 4) (Suc (length [0, 1, 2, 3 :: int] + 5)) (fresh 0 0) 0
                 = ([0, 1, 2, 3], Some (Returns ()), st'))"
proof -
  have h1: "deref (fresh 0 0) 0 = Frame 0 (initial_frame (0::int) (0::int))"
    and h2: "\<not> finished (initial_frame (0::int) (0::int))"
    and h3: "exc (promise (initial_frame (0::int) (0::int))) = None"
    using live_fresh [of "0::int" "0::int"] by simp_all
  have h4: "yields_then_completes (RangeGenerator 4) (point (initial_frame (0::int) (0::int))) [0, 1, 2, 3]"
    using RangeGenerator_yields by (simp add: initial_frame_def)
  from h1 h2 h3 h4
    range_for_sees_what_Next_returns
      [where body = "RangeGenerator 4" and ws = "[0, 1, 2, 3]" and m = 5, OF h1 h2]
  show ?thesis by blast
qed

lemma range_for_ThrowGenerator:
  "\<exists>st'. range_for ThrowGenerator 5 (fresh 0 0) 0 = ([1], Some (Throws (Exc ''gen boom'')), st')"
proof -
  have h1: "deref (fresh 0 0) 0 = Frame 0 (initial_frame (0::int) (0::nat))"
    and h2: "\<not> finished (initial_frame (0::int) (0::nat))"
    and h3: "exc (promise (initial_frame (0::int) (0::nat))) = None"
    using live_fresh [of "0::int" "0::nat"] by simp_all
  have h4: "yields_then_throws ThrowGenerator (point (initial_frame (0::int) (0::nat))) [1]
              (Exc ''gen boom'')"
    by (simp add: initial_frame_def ThrowGenerator_def)
  have n: "(5::nat) = Suc (length [1::int] + 3)" by simp
  from h3 h4
    range_for_sees_what_Next_returns
      [where body = ThrowGenerator and ws = "[1]" and m = 3 and e = "Exc ''gen boom''", OF h1 h2]
  show ?thesis unfolding n by blast
qed


section \<open>A generator that is already done\<close>

lemma begin_iter_finished:
  assumes "deref st g = Frame a f" "finished f"
  shows "begin_iter body st g = (Returns \<lparr>gen = Some g\<rparr>, st)"
  using assms by (simp add: begin_iter_def Iterator_def)

lemma operator_incr_finished:
  assumes "deref st g = Frame a f" "finished f"
  shows "operator_incr body st \<lparr>gen = Some g\<rparr> = (UndefinedBehaviour, st)"
  using assms by (simp add: operator_incr_def)

lemma range_for_finished:
  assumes "deref st g = Frame a f" "finished f"
  shows "range_for body (Suc (Suc n)) st g = ([val (promise f)], Some UndefinedBehaviour, st)"
  using assms
  by (simp add: range_for_def begin_iter_finished for_loop.simps operator_eq_def
      operator_deref_def operator_incr_finished)

text \<open>
  What does hold of a coroutine that is done: \<^verbatim>\<open>Do\<close>, \<^verbatim>\<open>Next\<close>, \<^verbatim>\<open>PickNext\<close> and \<^verbatim>\<open>begin\<close> test
  \<^verbatim>\<open>co.done()\<close> first and leave the state as it is.
\<close>

lemma done_is_left_alone:
  assumes "deref st x = Frame a f" "finished f"
  shows "snd (Do rbody st x) = st" "snd (Next gbody st x) = st"
    "snd (PickNext moved gbody st x) = st" "snd (begin_iter gbody st x) = st"
  using assms
  by (simp_all add: Do_finished Next_finished PickNext_finished begin_iter_finished)

lemma resume_keeps_done:
  "finished f \<Longrightarrow> finished (resume_routine rbody f) \<and> finished (resume_generator gbody f)"
  by (simp add: resume_routine_def resume_generator_def
      split: routine_step.splits generator_step.splits)

lemma first_range_for:
  "range_for (RangeGenerator 1) 2 (fresh 0 0) 0 = ([0], Some (Returns ()), exhausted_RangeGenerator)
   \<and> deref exhausted_RangeGenerator 0
       = Frame 0 \<lparr>promise = \<lparr>exc = None, val = 0\<rparr>, point = 1, finished = True\<rparr>"
proof -
  let ?f0 = "initial_frame (0::int) (0::int)"
  let ?f1 = "?f0\<lparr>promise := (promise ?f0)\<lparr>val := 0\<rparr>, point := 1\<rparr>"
  let ?f2 = "?f1\<lparr>finished := True\<rparr>"
  let ?st1 = "store (fresh 0 0) 0 ?f1"
  let ?st2 = "store ?st1 0 ?f2"
  have h1: "deref (fresh 0 0) 0 = Frame 0 ?f0"
    and h2: "\<not> finished ?f0" and h3: "exc (promise ?f0) = None"
    using live_fresh [of "0::int" "0::int"] by simp_all
  have s1: "RangeGenerator 1 (point ?f0) = CoYield 0 1"
    by (simp add: RangeGenerator_def initial_frame_def)
  have n1: "Next (RangeGenerator 1) (fresh 0 0) 0 = (Returns 0, ?st1)"
    using Next_yield [where body = "RangeGenerator 1", OF h1 h2 h3 s1] .
  have d1: "deref ?st1 0 = Frame 0 ?f1"
    using h1 by (rule deref_store)
  have l1: "\<not> finished ?f1" "exc (promise ?f1) = None"
    by (simp_all add: initial_frame_def)
  have s2: "RangeGenerator 1 (point ?f1) = CoReturnVoid"
    by (simp add: RangeGenerator_def)
  have n2: "Next (RangeGenerator 1) ?st1 0 = (Throws (Exc errmsg), ?st2)"
    using Next_complete [where body = "RangeGenerator 1", OF d1 l1 s2] .
  have d2: "deref ?st2 0 = Frame 0 ?f2"
    using d1 by (rule deref_store)
  have two: "(2::nat) = Suc (Suc 0)" by simp
  have loop: "Next_loop (RangeGenerator 1) 2 (fresh 0 0) 0 = ([0], Some (Throws (Exc errmsg)), ?st2)"
    unfolding two by (simp add: n1 n2)
  have none: "stored_exception ?st2 0 = None"
    using stored_exception_store [OF d1, of ?f2] by (simp add: initial_frame_def)
  have run: "range_for (RangeGenerator 1) 2 (fresh 0 0) 0 = ([0], Some (Returns ()), ?st2)"
    unfolding range_for_as_Next_loop [OF h1 h2] loop
    by (simp add: as_iteration_def none)
  then have ex: "exhausted_RangeGenerator = ?st2"
    by (simp add: exhausted_RangeGenerator_def)
  have "?f2 = \<lparr>promise = \<lparr>exc = None, val = 0\<rparr>, point = 1, finished = True\<rparr>"
    by (simp add: initial_frame_def)
  with run d2 show ?thesis
    unfolding ex by simp
qed

lemma deref_exhausted_RangeGenerator:
  "deref exhausted_RangeGenerator 0
     = Frame 0 \<lparr>promise = \<lparr>exc = None, val = 0\<rparr>, point = 1, finished = True\<rparr>"
  using first_range_for by blast

text \<open>
  C6, evaluated where the code departs from it: \<^verbatim>\<open>RangeGenerator(1)\<close> is iterated once by a
  range-based for loop, which sees 0 and ends at the sentinel. On the generator left
  behind, \<^verbatim>\<open>begin()\<close> skips the resume because \<^verbatim>\<open>co.done()\<close> holds and keeps \<^verbatim>\<open>gen\<close> non-null:
  the iterator it returns is not equal to \<^verbatim>\<open>end()\<close>, and \<^verbatim>\<open>*it\<close> is again 0.
\<close>

theorem C6_begin_on_an_exhausted_generator_is_not_end:
  "range_for (RangeGenerator 1) 2 (fresh 0 0) 0 = ([0], Some (Returns ()), exhausted_RangeGenerator)
   \<and> begin_iter (RangeGenerator 1) exhausted_RangeGenerator 0
       = (Returns \<lparr>gen = Some 0\<rparr>, exhausted_RangeGenerator)
   \<and> operator_eq \<lparr>gen = Some 0\<rparr> = False
   \<and> operator_deref exhausted_RangeGenerator \<lparr>gen = Some 0\<rparr> = Returns 0"
proof -
  have "range_for (RangeGenerator 1) 2 (fresh 0 0) 0
          = ([0], Some (Returns ()), exhausted_RangeGenerator)"
    using first_range_for by blast
  moreover have "begin_iter (RangeGenerator 1) exhausted_RangeGenerator 0
       = (Returns \<lparr>gen = Some 0\<rparr>, exhausted_RangeGenerator)"
    using begin_iter_finished [OF deref_exhausted_RangeGenerator] by simp
  moreover have "operator_deref exhausted_RangeGenerator \<lparr>gen = Some 0\<rparr> = Returns 0"
    by (simp add: operator_deref_def deref_exhausted_RangeGenerator)
  ultimately show ?thesis
    by (simp add: operator_eq_def)
qed

text \<open>
  C9, evaluated where the code departs from it: a second range-based for loop over the
  \<^verbatim>\<open>RangeGenerator(1)\<close> that the first loop has run to its end. The loop does not stop at
  \<^verbatim>\<open>begin()\<close>; its body sees the old value 0, and then \<^verbatim>\<open>operator++\<close> calls \<^verbatim>\<open>co.resume()\<close> on
  the coroutine that is done, which is undefined.
\<close>

theorem C9_second_range_for_resumes_a_done_coroutine:
  "Next (RangeGenerator 1) exhausted_RangeGenerator 0
     = (Throws (Exc errmsg), exhausted_RangeGenerator)
   \<and> operator_incr (RangeGenerator 1) exhausted_RangeGenerator \<lparr>gen = Some 0\<rparr>
       = (UndefinedBehaviour, exhausted_RangeGenerator)
   \<and> range_for (RangeGenerator 1) 2 exhausted_RangeGenerator 0
       = ([0], Some UndefinedBehaviour, exhausted_RangeGenerator)"
proof -
  have n: "(2::nat) = Suc (Suc 0)" by simp
  show ?thesis
    unfolding n
    using Next_finished [OF deref_exhausted_RangeGenerator, of "RangeGenerator 1"]
      operator_incr_finished [OF deref_exhausted_RangeGenerator, of "RangeGenerator 1"]
      range_for_finished [OF deref_exhausted_RangeGenerator, of "RangeGenerator 1" 0]
    by simp
qed


text \<open>
  C5, evaluated where the code departs from it: on the \<^verbatim>\<open>RangeGenerator(1)\<close> that a first loop
  has run to its end, \<^verbatim>\<open>Next\<close> throws \<^verbatim>\<open>Exc("Generator exhausted")\<close> at once and returns no
  value, but the range-based for loop does not end at \<^verbatim>\<open>begin()\<close>: its body sees the old
  value 0 and \<^verbatim>\<open>operator++\<close> then resumes the coroutine that is done. The iteration and the
  \<^verbatim>\<open>Next\<close> calls do not produce the same values there.
\<close>

theorem C5_range_for_and_Next_differ_on_an_exhausted_generator:
  "Next_loop (RangeGenerator 1) 3 exhausted_RangeGenerator 0
     = ([], Some (Throws (Exc errmsg)), exhausted_RangeGenerator)
   \<and> range_for (RangeGenerator 1) 3 exhausted_RangeGenerator 0
       = ([0], Some UndefinedBehaviour, exhausted_RangeGenerator)"
proof -
  have n: "(3::nat) = Suc (Suc 1)" by simp
  show ?thesis
    unfolding n
    using Next_finished [OF deref_exhausted_RangeGenerator, of "RangeGenerator 1"]
      range_for_finished [OF deref_exhausted_RangeGenerator, of "RangeGenerator 1" 1]
    by simp
qed

section \<open>Moves\<close>

lemma Do_same_referent:
  assumes "deref st1 x = deref st2 y"
  shows "fst (Do body st1 x) = fst (Do body st2 y)
         \<and> deref (snd (Do body st1 x)) x = deref (snd (Do body st2 y)) y"
proof (cases "deref st2 y")
  case (Frame a f)
  with assms have d1: "deref st1 x = Frame a f" by simp
  show ?thesis
    using deref_store [OF d1] deref_store [OF Frame] d1 Frame
    by (simp add: Do_def Let_def split: option.splits)
qed (use assms in \<open>simp_all add: Do_def\<close>)

lemma Next_same_referent:
  assumes "deref st1 x = deref st2 y"
  shows "fst (Next body st1 x) = fst (Next body st2 y)
         \<and> deref (snd (Next body st1 x)) x = deref (snd (Next body st2 y)) y"
proof (cases "deref st2 y")
  case (Frame a f)
  with assms have d1: "deref st1 x = Frame a f" by simp
  show ?thesis
    using deref_store [OF d1] deref_store [OF Frame] d1 Frame
    by (simp add: Next_def Let_def split: option.splits)
qed (use assms in \<open>simp_all add: Next_def\<close>)

lemma Do_n_same_referent:
  assumes "deref st1 x = deref st2 y"
  shows "fst (Do_n body k st1 x) = fst (Do_n body k st2 y)
         \<and> deref (snd (Do_n body k st1 x)) x = deref (snd (Do_n body k st2 y)) y"
  using assms
proof (induction k arbitrary: st1 st2)
  case 0
  then show ?case by simp
next
  case (Suc k)
  from Do_same_referent [OF Suc.prems, of body]
  have r: "fst (Do body st1 x) = fst (Do body st2 y)"
    and d: "deref (snd (Do body st1 x)) x = deref (snd (Do body st2 y)) y"
    by simp_all
  from Suc.IH [OF d] r show ?case
    by (simp add: case_prod_beta)
qed

lemma Next_n_same_referent:
  assumes "deref st1 x = deref st2 y"
  shows "fst (Next_n body k st1 x) = fst (Next_n body k st2 y)
         \<and> deref (snd (Next_n body k st1 x)) x = deref (snd (Next_n body k st2 y)) y"
  using assms
proof (induction k arbitrary: st1 st2)
  case 0
  then show ?case by simp
next
  case (Suc k)
  from Next_same_referent [OF Suc.prems, of body]
  have r: "fst (Next body st1 x) = fst (Next body st2 y)"
    and d: "deref (snd (Next body st1 x)) x = deref (snd (Next body st2 y)) y"
    by simp_all
  from Suc.IH [OF d] r show ?case
    by (simp add: case_prod_beta)
qed

lemma null_handle_asserts:
  assumes "deref st r = NullHandle"
  shows "fst (Do rbody st r) = AssertFailed" "Get st r = AssertFailed"
    "fst (Pick moved st r) = AssertFailed" "fst (Next gbody st r) = AssertFailed"
    "fst (PickNext moved gbody st r) = AssertFailed"
  using assms by (simp_all add: Do_def Get_def Pick_def Next_def PickNext_def)

lemma move_construct_result:
  assumes "objs st r = Some c" "objs st n = None"
  shows "move_construct st n r = (Returns (), st\<lparr>objs := (objs st)(n \<mapsto> c, r \<mapsto> None)\<rparr>)"
  using assms by (simp add: move_construct_def)

lemma move_construct_referents:
  assumes "objs st r = Some c" "objs st n = None"
  shows "deref (snd (move_construct st n r)) n = deref st r"
    and "deref (snd (move_construct st n r)) r = NullHandle"
    and "heap (snd (move_construct st n r)) = heap st"
proof -
  from assms have "n \<noteq> r" by auto
  with assms show "deref (snd (move_construct st n r)) n = deref st r"
    and "deref (snd (move_construct st n r)) r = NullHandle"
    and "heap (snd (move_construct st n r)) = heap st"
    by (simp_all add: move_construct_result deref_def split: option.splits)
qed

lemma move_assign_self:
  assumes "objs st x = Some c"
  shows "move_assign st x x = (Returns (), st)"
  using assms by (simp add: move_assign_def)

lemma move_assign_live:
  assumes "this \<noteq> r" "objs st this = Some (Some a)" "heap st a = Some f" "objs st r = Some rc"
  shows "move_assign st this r =
           (Returns (), st\<lparr>heap := (heap st)(a := None), objs := (objs st)(this \<mapsto> rc, r \<mapsto> None)\<rparr>)"
  using assms by (simp add: move_assign_def destroy_if_set_def destroy_def)

lemma move_assign_empty:
  assumes "this \<noteq> r" "objs st this = Some None" "objs st r = Some rc"
  shows "move_assign st this r = (Returns (), st\<lparr>objs := (objs st)(this \<mapsto> rc, r \<mapsto> None)\<rparr>)"
  using assms by (simp add: move_assign_def destroy_if_set_def)


lemma move_assign_well_owned:
  assumes "well_owned st" "objs st this = Some c" "objs st r = Some rc"
  shows "fst (move_assign st this r) = Returns () \<and> well_owned (snd (move_assign st this r))"
proof (cases "this = r")
  case True
  with assms show ?thesis by (simp add: move_assign_self)
next
  case False
  from assms(1) have excl: "\<And>x y a. objs st x = Some (Some a) \<Longrightarrow> objs st y = Some (Some a) \<Longrightarrow> x = y"
    and alloc: "\<And>a. (\<exists>f. heap st a = Some f) \<longleftrightarrow> (\<exists>x. objs st x = Some (Some a))"
    unfolding well_owned_def by blast+
  show ?thesis
  proof (cases c)
    case None
    have run: "move_assign st this r = (Returns (), st\<lparr>objs := (objs st)(this \<mapsto> rc, r \<mapsto> None)\<rparr>)"
      using move_assign_empty [OF False] assms(2,3) None by simp
    have "well_owned (st\<lparr>objs := (objs st)(this \<mapsto> rc, r \<mapsto> None)\<rparr>)"
      unfolding well_owned_def
    proof (intro conjI allI impI)
      fix x y a
      assume "objs (st\<lparr>objs := (objs st)(this \<mapsto> rc, r \<mapsto> None)\<rparr>) x = Some (Some a)
            \<and> objs (st\<lparr>objs := (objs st)(this \<mapsto> rc, r \<mapsto> None)\<rparr>) y = Some (Some a)"
      then show "x = y"
        using False assms(3) excl by (auto split: if_splits)
    next
      fix a
      show "(\<exists>f. heap (st\<lparr>objs := (objs st)(this \<mapsto> rc, r \<mapsto> None)\<rparr>) a = Some f)
              \<longleftrightarrow> (\<exists>x. objs (st\<lparr>objs := (objs st)(this \<mapsto> rc, r \<mapsto> None)\<rparr>) x = Some (Some a))"
      proof
        assume "\<exists>f. heap (st\<lparr>objs := (objs st)(this \<mapsto> rc, r \<mapsto> None)\<rparr>) a = Some f"
        then obtain x where x: "objs st x = Some (Some a)"
          using alloc [of a] by auto
        have "x \<noteq> this" using x assms(2) None by auto
        show "\<exists>x. objs (st\<lparr>objs := (objs st)(this \<mapsto> rc, r \<mapsto> None)\<rparr>) x = Some (Some a)"
        proof (cases "x = r")
          case True
          with x assms(3) have "rc = Some a" by simp
          with False show ?thesis by (intro exI [of _ this]) simp
        next
          case xr: False
          with x \<open>x \<noteq> this\<close> show ?thesis by (intro exI [of _ x]) simp
        qed
      next
        assume "\<exists>x. objs (st\<lparr>objs := (objs st)(this \<mapsto> rc, r \<mapsto> None)\<rparr>) x = Some (Some a)"
        then have "\<exists>x. objs st x = Some (Some a)"
          using assms(3) by (auto split: if_splits)
        then show "\<exists>f. heap (st\<lparr>objs := (objs st)(this \<mapsto> rc, r \<mapsto> None)\<rparr>) a = Some f"
          using alloc [of a] by simp
      qed
    qed
    with run show ?thesis by simp
  next
    case (Some a0)
    with assms(2) have own: "objs st this = Some (Some a0)" by simp
    then obtain f0 where f0: "heap st a0 = Some f0"
      using alloc [of a0] by blast
    let ?st = "st\<lparr>heap := (heap st)(a0 := None), objs := (objs st)(this \<mapsto> rc, r \<mapsto> None)\<rparr>"
    have run: "move_assign st this r = (Returns (), ?st)"
      using move_assign_live [OF False own f0 assms(3)] .
    have rc: "rc \<noteq> Some a0"
      using excl [OF own, of r] assms(3) False by auto
    have "well_owned ?st"
      unfolding well_owned_def
    proof (intro conjI allI impI)
      fix x y a
      assume "objs ?st x = Some (Some a) \<and> objs ?st y = Some (Some a)"
      then show "x = y"
        using False assms(3) excl by (auto split: if_splits)
    next
      fix a
      show "(\<exists>f. heap ?st a = Some f) \<longleftrightarrow> (\<exists>x. objs ?st x = Some (Some a))"
      proof
        assume "\<exists>f. heap ?st a = Some f"
        then have "a \<noteq> a0" and "\<exists>f. heap st a = Some f"
          by (auto split: if_splits)
        then obtain x where x: "objs st x = Some (Some a)"
          using alloc [of a] by auto
        have "x \<noteq> this" using x own \<open>a \<noteq> a0\<close> by auto
        show "\<exists>x. objs ?st x = Some (Some a)"
        proof (cases "x = r")
          case True
          with x assms(3) have "rc = Some a" by simp
          with False show ?thesis by (intro exI [of _ this]) simp
        next
          case xr: False
          with x \<open>x \<noteq> this\<close> show ?thesis by (intro exI [of _ x]) simp
        qed
      next
        assume "\<exists>x. objs ?st x = Some (Some a)"
        then obtain x where x: "objs ?st x = Some (Some a)" by blast
        have "a \<noteq> a0"
        proof
          assume "a = a0"
          with x rc have "x \<noteq> this" "x \<noteq> r" "objs st x = Some (Some a0)"
            by (auto split: if_splits)
          with excl [OF own, of x] show False by simp
        qed
        moreover from x have "\<exists>x. objs st x = Some (Some a)"
          using assms(3) by (auto split: if_splits)
        ultimately show "\<exists>f. heap ?st a = Some f"
          using alloc [of a] by simp
      qed
    qed
    with run show ?thesis by simp
  qed
qed

lemma move_assign_referents:
  assumes "well_owned st" "this \<noteq> r" "objs st this = Some c" "objs st r = Some rc"
  shows "deref (snd (move_assign st this r)) this = deref st r
         \<and> deref (snd (move_assign st this r)) r = NullHandle"
proof (cases c)
  case None
  with assms show ?thesis
    by (simp add: move_assign_empty deref_def split: option.splits)
next
  case (Some a0)
  from assms(1) have excl: "\<And>x y a. objs st x = Some (Some a) \<Longrightarrow> objs st y = Some (Some a) \<Longrightarrow> x = y"
    and alloc: "\<And>a. (\<exists>f. heap st a = Some f) \<longleftrightarrow> (\<exists>x. objs st x = Some (Some a))"
    unfolding well_owned_def by blast+
  from Some assms(3) have own: "objs st this = Some (Some a0)" by simp
  then obtain f0 where f0: "heap st a0 = Some f0"
    using alloc [of a0] by blast
  have rc: "rc \<noteq> Some a0"
    using excl [OF own, of r] assms(2,4) by auto
  with assms own f0 show ?thesis
    by (auto simp: move_assign_live deref_def split: option.splits)
qed


lemma Get_same_referent:
  assumes "deref st1 x = deref st2 y"
  shows "Get st1 x = Get st2 y"
  using assms by (simp add: Get_def)

lemma destructor_null:
  assumes "objs st r = Some None"
  shows "destructor st r = (Returns (), st\<lparr>objs := (objs st)(r := None)\<rparr>)"
  using assms by (simp add: destructor_def destroy_if_set_def)

lemma handed_over:
  assumes "deref st' n = deref st r" "deref st' r = NullHandle"
  shows "fst (Do rbody st' r) = AssertFailed \<and> Get st' r = AssertFailed
         \<and> fst (Pick moved st' r) = AssertFailed
         \<and> fst (Next gbody st' r) = AssertFailed
         \<and> fst (PickNext moved gbody st' r) = AssertFailed
         \<and> fst (Do_n rbody k st' n) = fst (Do_n rbody k st r)
         \<and> Get (snd (Do_n rbody k st' n)) n = Get (snd (Do_n rbody k st r)) r
         \<and> fst (Next_n gbody k st' n) = fst (Next_n gbody k st r)"
  using null_handle_asserts [OF assms(2)] Do_n_same_referent [OF assms(1), of rbody k]
    Next_n_same_referent [OF assms(1), of gbody k]
    Get_same_referent [of "snd (Do_n rbody k st' n)" n "snd (Do_n rbody k st r)" r]
  by simp

text \<open>
  C8, as stated, fails: in the tests' \<^verbatim>\<open>auto g2 = pick(g1)\<close> (here \<^verbatim>\<open>g1\<close> is object 0 and \<^verbatim>\<open>g2\<close>
  object 1), \<^verbatim>\<open>g1.end()\<close> afterwards returns the sentinel, and \<^verbatim>\<open>g1.begin()\<close> fails no
  assertion: the constructor of \<^verbatim>\<open>Iterator\<close> calls \<^verbatim>\<open>done()\<close> on the null handle.
\<close>

theorem C8_counterexample:
  "end_iter (snd (move_construct (fresh (0::int) (0::int)) 1 0)) 0 = Returns ()
   \<and> fst (begin_iter (RangeGenerator 3) (snd (move_construct (fresh 0 0) 1 0)) 0)
       = UndefinedBehaviour"
proof -
  have o: "objs (fresh (0::int) (0::int)) 0 = Some (Some 0)" "objs (fresh (0::int) (0::int)) 1 = None"
    by (simp_all add: fresh_def spawn_def empty_state_def)
  have "deref (snd (move_construct (fresh (0::int) (0::int)) 1 0)) 0 = NullHandle"
    using move_construct_referents(2) [OF o] .
  then show ?thesis
    by (simp add: end_iter_def begin_iter_def Iterator_def)
qed

text \<open>
  C8, amended. Move construction from \<open>r\<close>, and move assignment from \<open>r\<close> to another object
  (in a state where every frame has one owner), leave \<open>r\<close> with the null handle and give
  the target the very handle \<open>r\<close> had, to the same frame with the same contents. On \<open>r\<close>
  afterwards \<^verbatim>\<open>Do\<close>, \<^verbatim>\<open>Get\<close>, \<^verbatim>\<open>Pick\<close>, \<^verbatim>\<open>Next\<close> and \<^verbatim>\<open>PickNext\<close> fail \<^verbatim>\<open>ASSERT(co)\<close>, \<^verbatim>\<open>end()\<close> returns
  the sentinel, and the destructor frees nothing. On the target, any number \<open>k\<close> of \<^verbatim>\<open>Do\<close>
  calls, or of \<^verbatim>\<open>Next\<close> calls, have the outcomes they would have had on \<open>r\<close> without the
  move, and \<^verbatim>\<open>Get\<close> after them as well. (\<^verbatim>\<open>begin()\<close> on \<open>r\<close> is left out.)
\<close>

theorem C8_move_hands_the_frame_over:
  "(objs st r = Some c \<and> objs st n = None
    \<longrightarrow> fst (move_construct st n r) = Returns ()
        \<and> heap (snd (move_construct st n r)) = heap st
        \<and> objs (snd (move_construct st n r)) n = Some c
        \<and> objs (snd (move_construct st n r)) r = Some None
        \<and> fst (Do rbody (snd (move_construct st n r)) r) = AssertFailed
        \<and> Get (snd (move_construct st n r)) r = AssertFailed
        \<and> fst (Pick moved (snd (move_construct st n r)) r) = AssertFailed
        \<and> fst (Next gbody (snd (move_construct st n r)) r) = AssertFailed
        \<and> fst (PickNext moved gbody (snd (move_construct st n r)) r) = AssertFailed
        \<and> end_iter (snd (move_construct st n r)) r = Returns ()
        \<and> fst (destructor (snd (move_construct st n r)) r) = Returns ()
        \<and> heap (snd (destructor (snd (move_construct st n r)) r)) = heap st
        \<and> fst (Do_n rbody k (snd (move_construct st n r)) n) = fst (Do_n rbody k st r)
        \<and> Get (snd (Do_n rbody k (snd (move_construct st n r)) n)) n
            = Get (snd (Do_n rbody k st r)) r
        \<and> fst (Next_n gbody k (snd (move_construct st n r)) n) = fst (Next_n gbody k st r))
   \<and> (well_owned st \<and> this \<noteq> r \<and> objs st this = Some c' \<and> objs st r = Some c
      \<longrightarrow> fst (move_assign st this r) = Returns ()
        \<and> objs (snd (move_assign st this r)) this = Some c
        \<and> objs (snd (move_assign st this r)) r = Some None
        \<and> fst (Do rbody (snd (move_assign st this r)) r) = AssertFailed
        \<and> Get (snd (move_assign st this r)) r = AssertFailed
        \<and> fst (Pick moved (snd (move_assign st this r)) r) = AssertFailed
        \<and> fst (Next gbody (snd (move_assign st this r)) r) = AssertFailed
        \<and> fst (PickNext moved gbody (snd (move_assign st this r)) r) = AssertFailed
        \<and> end_iter (snd (move_assign st this r)) r = Returns ()
        \<and> fst (destructor (snd (move_assign st this r)) r) = Returns ()
        \<and> heap (snd (destructor (snd (move_assign st this r)) r))
            = heap (snd (move_assign st this r))
        \<and> fst (Do_n rbody k (snd (move_assign st this r)) this) = fst (Do_n rbody k st r)
        \<and> Get (snd (Do_n rbody k (snd (move_assign st this r)) this)) this
            = Get (snd (Do_n rbody k st r)) r
        \<and> fst (Next_n gbody k (snd (move_assign st this r)) this) = fst (Next_n gbody k st r))"
proof (intro conjI impI)
  assume A: "objs st r = Some c \<and> objs st n = None"
  then have o: "objs st r = Some c" "objs st n = None" by simp_all
  then have nr: "n \<noteq> r" by auto
  let ?st = "snd (move_construct st n r)"
  have run: "move_construct st n r = (Returns (), st\<lparr>objs := (objs st)(n \<mapsto> c, r \<mapsto> None)\<rparr>)"
    using move_construct_result [OF o] .
  have ho: "deref ?st n = deref st r" "deref ?st r = NullHandle"
    using move_construct_referents [OF o] by simp_all
  have null: "objs ?st r = Some None"
    using run by simp
  note all = handed_over [OF ho, of rbody moved gbody k]
  show "fst (move_construct st n r) = Returns ()" using run by simp
  show "heap ?st = heap st" using run by simp
  show "objs ?st n = Some c" using run nr by simp
  show "objs ?st r = Some None" by (rule null)
  show "fst (Do rbody ?st r) = AssertFailed" using all by simp
  show "Get ?st r = AssertFailed" using all by simp
  show "fst (Pick moved ?st r) = AssertFailed" using all by simp
  show "fst (Next gbody ?st r) = AssertFailed" using all by simp
  show "fst (PickNext moved gbody ?st r) = AssertFailed" using all by simp
  show "end_iter ?st r = Returns ()" by (simp add: end_iter_def)
  show "fst (destructor ?st r) = Returns ()" using destructor_null [OF null] by simp
  show "heap (snd (destructor ?st r)) = heap st" using destructor_null [OF null] run by simp
  show "fst (Do_n rbody k ?st n) = fst (Do_n rbody k st r)" using all by simp
  show "Get (snd (Do_n rbody k ?st n)) n = Get (snd (Do_n rbody k st r)) r" using all by simp
  show "fst (Next_n gbody k ?st n) = fst (Next_n gbody k st r)" using all by simp
next
  assume A: "well_owned st \<and> this \<noteq> r \<and> objs st this = Some c' \<and> objs st r = Some c"
  then have w: "well_owned st" and ne: "this \<noteq> r"
    and o: "objs st this = Some c'" "objs st r = Some c" by simp_all
  let ?st = "snd (move_assign st this r)"
  have ho: "deref ?st this = deref st r" "deref ?st r = NullHandle"
    using move_assign_referents [OF w ne o] by simp_all
  have objs: "objs ?st = (objs st)(this \<mapsto> c, r \<mapsto> None)"
  proof (cases c')
    case None
    with o ne show ?thesis by (simp add: move_assign_empty)
  next
    case (Some a0)
    from w have "\<And>a. (\<exists>f. heap st a = Some f) \<longleftrightarrow> (\<exists>x. objs st x = Some (Some a))"
      unfolding well_owned_def by blast
    with Some o(1) obtain f0 where "heap st a0 = Some f0" by blast
    with Some o ne show ?thesis by (simp add: move_assign_live)
  qed
  have null: "objs ?st r = Some None"
    using objs by simp
  note all = handed_over [OF ho, of rbody moved gbody k]
  show "fst (move_assign st this r) = Returns ()"
    using move_assign_well_owned [OF w o] by simp
  show "objs ?st this = Some c" using objs ne by simp
  show "objs ?st r = Some None" by (rule null)
  show "fst (Do rbody ?st r) = AssertFailed" using all by simp
  show "Get ?st r = AssertFailed" using all by simp
  show "fst (Pick moved ?st r) = AssertFailed" using all by simp
  show "fst (Next gbody ?st r) = AssertFailed" using all by simp
  show "fst (PickNext moved gbody ?st r) = AssertFailed" using all by simp
  show "end_iter ?st r = Returns ()" by (simp add: end_iter_def)
  show "fst (destructor ?st r) = Returns ()" using destructor_null [OF null] by simp
  show "heap (snd (destructor ?st r)) = heap ?st" using destructor_null [OF null] by simp
  show "fst (Do_n rbody k ?st this) = fst (Do_n rbody k st r)" using all by simp
  show "Get (snd (Do_n rbody k ?st this)) this = Get (snd (Do_n rbody k st r)) r" using all by simp
  show "fst (Next_n gbody k ?st this) = fst (Next_n gbody k st r)" using all by simp
qed


lemma two_coroutines_facts:
  "well_owned two_coroutines"
  "objs two_coroutines 0 = Some (Some 0)"
  "objs two_coroutines 1 = Some (Some 1)"
  "objs two_coroutines 2 = None"
  "heap two_coroutines 0 = Some (initial_frame 0 0)"
  by (auto simp: well_owned_def two_coroutines_def fresh_def spawn_def empty_state_def
      split: if_splits)

theorem C8_witness:
  "(objs two_coroutines 1 = Some (Some 1) \<and> objs two_coroutines 2 = None)
   \<and> (well_owned two_coroutines \<and> (0::nat) \<noteq> 1 \<and> objs two_coroutines 0 = Some (Some 0))
   \<and> fst (Do StepRoutine (snd (move_construct two_coroutines 2 1)) 1) = AssertFailed
   \<and> fst (Do_n StepRoutine 3 (snd (move_construct two_coroutines 2 1)) 2)
       = fst (Do_n StepRoutine 3 two_coroutines 1)
   \<and> fst (Do StepRoutine (snd (move_assign two_coroutines 0 1)) 1) = AssertFailed
   \<and> fst (Do_n StepRoutine 3 (snd (move_assign two_coroutines 0 1)) 0)
       = fst (Do_n StepRoutine 3 two_coroutines 1)"
proof -
  have ne: "(0::nat) \<noteq> 1" by simp
  from two_coroutines_facts(1-4) ne
    C8_move_hands_the_frame_over
      [where st = two_coroutines and r = 1 and c = "Some 1" and n = 2 and this = 0
         and c' = "Some 0" and rbody = StepRoutine and k = 3]
  show ?thesis by blast
qed

text \<open>
  C10. Move assignment of an object to itself changes nothing. Move assignment into an
  object that owns a coroutine, from another object, first frees that coroutine's frame
  and then takes the source's handle, leaving the source with the null handle. In a state
  where every allocated frame is owned by exactly one object, move assignment between any
  two objects succeeds and leaves such a state: no frame is left without an owner, none
  has two, and no handle points to a freed frame.
\<close>

theorem C10_move_assign_self_and_release:
  "(objs st x = Some c \<longrightarrow> move_assign st x x = (Returns (), st))
   \<and> (this \<noteq> r \<and> objs st this = Some (Some a) \<and> heap st a = Some f \<and> objs st r = Some rc
      \<longrightarrow> move_assign st this r
            = (Returns (),
               st\<lparr>heap := (heap st)(a := None), objs := (objs st)(this \<mapsto> rc, r \<mapsto> None)\<rparr>))
   \<and> (well_owned st \<and> objs st this = Some c' \<and> objs st r = Some rc
      \<longrightarrow> fst (move_assign st this r) = Returns ()
          \<and> well_owned (snd (move_assign st this r)))"
  using move_assign_self [of st x c] move_assign_live [of this r st a f rc]
    move_assign_well_owned [of st this c' r rc]
  by blast

theorem C10_witness:
  "objs two_coroutines 0 = Some (Some 0)
   \<and> ((0::nat) \<noteq> 1 \<and> heap two_coroutines 0 = Some (initial_frame 0 0)
        \<and> objs two_coroutines 1 = Some (Some 1))
   \<and> well_owned two_coroutines
   \<and> move_assign two_coroutines 0 0 = (Returns (), two_coroutines)
   \<and> move_assign two_coroutines 0 1
       = (Returns (),
          two_coroutines\<lparr>heap := (heap two_coroutines)(0 := None),
                           objs := (objs two_coroutines)(0 \<mapsto> Some 1, 1 \<mapsto> None)\<rparr>)
   \<and> well_owned (snd (move_assign two_coroutines 0 1))"
proof -
  have ne: "(0::nat) \<noteq> 1" by simp
  from two_coroutines_facts(1-3,5) ne
    C10_move_assign_self_and_release
      [where st = two_coroutines and x = 0 and c = "Some 0" and this = 0 and r = 1 and a = 0
         and f = "initial_frame 0 0" and rc = "Some 1" and c' = "Some 0"]
  show ?thesis by blast
qed

end
